theory Spec2Isabelle
  imports Main "HOL-Library.AList"
begin

section \<open>Findings and the response builder\<close>

text \<open>
  The plugin reports through the SDK's response builder: every chain
  \<^verbatim>\<open>resp.Finding(rule, severity, confidence, message).At(file, start, end).WithMetadata(k, v)...Done()\<close>
  appends one finding.  The builder is modelled as the list of findings emitted so far, in
  emission order; the metadata of a finding is the list of its key/value pairs in call order.
  Line numbers and counters are Go \<^verbatim>\<open>int\<close>s that only count lines of one file upwards
  from zero, so they are natural numbers here.
\<close>

datatype severity = SeverityLow | SeverityMedium | SeverityHigh

datatype confidence = ConfidenceLow | ConfidenceMedium | ConfidenceHigh

record finding =
  ruleID :: string
  severity :: severity
  confidence :: confidence
  message :: string
  filePath :: string
  startLine :: nat
  endLine :: nat
  metadata :: "(string \<times> string) list"

type_synonym response = "finding list"

text \<open>\<^verbatim>\<open>fmt.Sprintf("%d", n)\<close> for a non-negative \<^verbatim>\<open>n\<close>, and \<^verbatim>\<open>fmt.Sprintf("%t", b)\<close>.\<close>

function fmt_d :: "nat \<Rightarrow> string" where
  "fmt_d n = (if n < 10 then [char_of (48 + n)] else fmt_d (n div 10) @ [char_of (48 + n mod 10)])"
  by pat_completeness auto
termination
  by (relation "measure id") auto

declare fmt_d.simps [simp del]

definition fmt_t :: "bool \<Rightarrow> string" where
  "fmt_t b = (if b then ''true'' else ''false'')"

section \<open>File summaries\<close>

record importRef =
  module :: string
  line :: nat

record fileInfo =
  path :: string
  ext :: string
  lines :: "string list"
  importRefs :: "importRef list"
  exports :: nat
  lineCount :: nat

definition extToLanguage :: "string \<Rightarrow> string" where
  "extToLanguage e =
     (if e = ''.go'' then ''go''
      else if e = ''.py'' then ''python''
      else if e = ''.js'' then ''javascript''
      else if e = ''.ts'' then ''typescript''
      else ''unknown'')"

section \<open>Strings\<close>

text \<open>
  Go strings are byte sequences; \<^typ>\<open>string\<close> is a list of 8-bit characters.  The library
  functions below work on runes, that is on the UTF-8 decoding of the bytes.  Every rune they
  single out has a fixed encoding that starts with a lead byte, so reading the encodings off
  the bytes is the same as decoding first.
\<close>

definition strings_HasSuffix :: "string \<Rightarrow> string \<Rightarrow> bool" where
  "strings_HasSuffix s suffix =
     (length suffix \<le> length s \<and> drop (length s - length suffix) s = suffix)"

text \<open>
  The UTF-8 encodings of the runes for which \<^verbatim>\<open>unicode.IsSpace\<close> holds: U+0009 to U+000D,
  U+0020, U+0085, U+00A0, U+1680, U+2000 to U+200A, U+2028, U+2029, U+202F, U+205F, U+3000.
\<close>

definition space_runes :: "string list" where
  "space_runes =
     [[CHR 0x09], [CHR 0x0A], [CHR 0x0B], [CHR 0x0C], [CHR 0x0D], [CHR 0x20],
      [CHR 0xC2, CHR 0x85], [CHR 0xC2, CHR 0xA0], [CHR 0xE1, CHR 0x9A, CHR 0x80],
      [CHR 0xE2, CHR 0x80, CHR 0x80], [CHR 0xE2, CHR 0x80, CHR 0x81],
      [CHR 0xE2, CHR 0x80, CHR 0x82], [CHR 0xE2, CHR 0x80, CHR 0x83],
      [CHR 0xE2, CHR 0x80, CHR 0x84], [CHR 0xE2, CHR 0x80, CHR 0x85],
      [CHR 0xE2, CHR 0x80, CHR 0x86], [CHR 0xE2, CHR 0x80, CHR 0x87],
      [CHR 0xE2, CHR 0x80, CHR 0x88], [CHR 0xE2, CHR 0x80, CHR 0x89],
      [CHR 0xE2, CHR 0x80, CHR 0x8A], [CHR 0xE2, CHR 0x80, CHR 0xA8],
      [CHR 0xE2, CHR 0x80, CHR 0xA9], [CHR 0xE2, CHR 0x80, CHR 0xAF],
      [CHR 0xE2, CHR 0x81, CHR 0x9F], [CHR 0xE3, CHR 0x80, CHR 0x80]]"

text \<open>Removes, as long as there is one, a leading occurrence of one of the given byte sequences.\<close>

function strip_leading :: "string list \<Rightarrow> string \<Rightarrow> string" where
  "strip_leading rs s =
     (case find (\<lambda>r. r \<noteq> [] \<and> take (length r) s = r) rs of
        None \<Rightarrow> s
      | Some r \<Rightarrow> strip_leading rs (drop (length r) s))"
  by pat_completeness auto
termination
proof (relation "measure (\<lambda>(rs, s). length s)")
  show "wf (measure (\<lambda>(rs, s). length s))"
    by simp
next
  fix rs :: "string list" and s r :: string
  assume "find (\<lambda>r. r \<noteq> [] \<and> take (length r) s = r) rs = Some r"
  then have "r \<noteq> []" and "take (length r) s = r"
    by (auto simp: find_Some_iff)
  then have "s \<noteq> []"
    by auto
  with \<open>r \<noteq> []\<close> show "((rs, drop (length r) s), (rs, s)) \<in> measure (\<lambda>(rs, s). length s)"
    by simp
qed

declare strip_leading.simps [simp del]

text \<open>
  \<^verbatim>\<open>strings.TrimSpace\<close>: leading white space is removed rune by rune from the front,
  trailing white space rune by rune from the back (\<^verbatim>\<open>utf8.DecodeLastRuneInString\<close>).
\<close>

definition strings_TrimSpace :: "string \<Rightarrow> string" where
  "strings_TrimSpace s =
     rev (strip_leading (map rev space_runes) (rev (strip_leading space_runes s)))"

section \<open>Regular expressions\<close>

text \<open>
  The fragment of Go's \<^verbatim>\<open>regexp\<close> syntax that the pattern tables use, as a syntax tree over
  bytes: a byte class, a negated byte class, the empty pattern, the anchor \<^verbatim>\<open>^\<close>,
  concatenation, alternation, the greedy star and a numbered capturing group.
\<close>

datatype rx =
    Sym "char list"
  | NSym "char list"
  | Eps
  | Bol
  | Seq rx rx
  | Alt rx rx
  | Star rx
  | Grp nat rx

text \<open>
  A matcher state: whether the position is the beginning of the text, the input that is left,
  and the captures made so far (the latest capture of a group first).
\<close>

type_synonym caps = "(nat \<times> string) list"

type_synonym mstate = "bool \<times> string \<times> caps"

definition rest :: "mstate \<Rightarrow> string" where
  "rest st = fst (snd st)"

text \<open>
  \<open>run r st\<close> lists the states in which a match of \<open>r\<close> that starts in \<open>st\<close> can end, in the
  order in which a backtracking search tries them: the left alternative first, one more
  iteration of a star before leaving it.  Go's \<^verbatim>\<open>regexp\<close> chooses the match that such a
  search finds first (leftmost-first).  The comparisons of lengths are what makes the
  recursion well-founded: the one in a concatenation always holds (lemma \<open>run_Seq\<close> below),
  and the one in a star only cuts off iterations that consume nothing.
\<close>

function run :: "rx \<Rightarrow> mstate \<Rightarrow> mstate list" where
  "run (Sym cs) st =
     (case rest st of
        [] \<Rightarrow> []
      | x # xs \<Rightarrow> if x \<in> set cs then [(False, xs, snd (snd st))] else [])"
| "run (NSym cs) st =
     (case rest st of
        [] \<Rightarrow> []
      | x # xs \<Rightarrow> if x \<notin> set cs then [(False, xs, snd (snd st))] else [])"
| "run Eps st = [st]"
| "run Bol st = (if fst st then [st] else [])"
| "run (Seq r1 r2) st =
     concat (map (\<lambda>st'. if length (rest st') \<le> length (rest st) then run r2 st' else [])
                 (run r1 st))"
| "run (Alt r1 r2) st = run r1 st @ run r2 st"
| "run (Star r) st =
     concat (map (\<lambda>st'. if length (rest st') < length (rest st) then run (Star r) st' else [])
                 (run r st)) @ [st]"
| "run (Grp n r) st =
     map (\<lambda>st'. (fst st', rest st',
                  (n, take (length (rest st) - length (rest st')) (rest st)) # snd (snd st')))
         (run r st)"
  by pat_completeness auto
termination
  by (relation "measures [\<lambda>(r, st). length (rest st), \<lambda>(r, st). size r]") auto

declare run.simps [simp del]

text \<open>
  The leftmost match: the start positions are tried from left to right, and at the first
  position where the pattern matches, the first match of the search is taken.  The result is
  the matched text and the captures.
\<close>

fun find_from :: "rx \<Rightarrow> bool \<Rightarrow> string \<Rightarrow> (string \<times> caps) option" where
  "find_from r b s =
     (case run r (b, s, []) of
        st # _ \<Rightarrow> Some (take (length s - length (rest st)) s, snd (snd st))
      | [] \<Rightarrow> (case s of [] \<Rightarrow> None | x # xs \<Rightarrow> find_from r False xs))"

declare find_from.simps [simp del]

fun ngroups :: "rx \<Rightarrow> nat" where
  "ngroups (Seq r1 r2) = max (ngroups r1) (ngroups r2)"
| "ngroups (Alt r1 r2) = max (ngroups r1) (ngroups r2)"
| "ngroups (Star r) = ngroups r"
| "ngroups (Grp n r) = max n (ngroups r)"
| "ngroups r = 0"

text \<open>
  \<^verbatim>\<open>re.FindStringSubmatch(s)\<close>: \<^verbatim>\<open>nil\<close> (the empty list) when there is no match, otherwise
  the matched text followed by the text of every group, empty for a group that took no part
  in the match.  \<^verbatim>\<open>re.MatchString(s)\<close> tells whether there is a match.
\<close>

definition FindStringSubmatch :: "rx \<Rightarrow> string \<Rightarrow> string list" where
  "FindStringSubmatch re s =
     (case find_from re True s of
        None \<Rightarrow> []
      | Some (m, c) \<Rightarrow>
          m # map (\<lambda>i. case map_of c i of None \<Rightarrow> [] | Some g \<Rightarrow> g) [1..<Suc (ngroups re)])"

definition MatchString :: "rx \<Rightarrow> string \<Rightarrow> bool" where
  "MatchString re s = (find_from re True s \<noteq> None)"

subsection \<open>Building blocks of the patterns\<close>

definition seqs :: "rx list \<Rightarrow> rx" where
  "seqs rs = foldr Seq rs Eps"

definition alts :: "rx list \<Rightarrow> rx" where
  "alts rs = foldr Alt (butlast rs) (last rs)"

definition plus :: "rx \<Rightarrow> rx" where
  "plus r = Seq r (Star r)"

definition opt :: "rx \<Rightarrow> rx" where
  "opt r = Alt r Eps"

definition lit :: "string \<Rightarrow> rx" where
  "lit s = seqs (map (\<lambda>c. Sym [c]) s)"

definition upper_chars :: "char list" where
  "upper_chars = ''ABCDEFGHIJKLMNOPQRSTUVWXYZ''"

definition lower_chars :: "char list" where
  "lower_chars = ''abcdefghijklmnopqrstuvwxyz''"

text \<open>
  Under the flag \<^verbatim>\<open>(?i)\<close> a letter matches every rune of its case-folding orbit: the letter
  in both cases and, for \<^verbatim>\<open>s\<close> and \<^verbatim>\<open>k\<close>, also U+017F (bytes C5 BF) and U+212A (bytes
  E2 84 AA).
\<close>

definition long_s :: rx where
  "long_s = lit [CHR 0xC5, CHR 0xBF]"

definition kelvin :: rx where
  "kelvin = lit [CHR 0xE2, CHR 0x84, CHR 0xAA]"

definition ci_sym :: "char \<Rightarrow> rx" where
  "ci_sym c =
     (case find (\<lambda>lu. c = fst lu \<or> c = snd lu) (zip lower_chars upper_chars) of
        None \<Rightarrow> Sym [c]
      | Some (l, u) \<Rightarrow>
          if l = CHR ''s'' then Alt (Sym [l, u]) long_s
          else if l = CHR ''k'' then Alt (Sym [l, u]) kelvin
          else Sym [l, u])"

definition lit_ci :: "string \<Rightarrow> rx" where
  "lit_ci s = seqs (map ci_sym s)"

text \<open>
  The classes \<^verbatim>\<open>\s\<close>, \<^verbatim>\<open>\S\<close>, \<^verbatim>\<open>\w\<close> (ASCII only in Go), \<^verbatim>\<open>\w\<close> under \<^verbatim>\<open>(?i)\<close>, and
  the dot, which matches everything but a newline.
\<close>

definition space_chars :: "char list" where
  "space_chars = [CHR 0x09, CHR 0x0A, CHR 0x0C, CHR 0x0D, CHR 0x20]"

definition word_chars :: "char list" where
  "word_chars = ''0123456789'' @ upper_chars @ ''_'' @ lower_chars"

definition cls_s :: rx where
  "cls_s = Sym space_chars"

definition cls_S :: rx where
  "cls_S = NSym space_chars"

definition cls_w :: rx where
  "cls_w = Sym word_chars"

definition cls_w_ci :: rx where
  "cls_w_ci = alts [Sym word_chars, long_s, kelvin]"

definition dot :: rx where
  "dot = NSym [CHR 0x0A]"

section \<open>The pattern tables\<close>

definition dquote :: char where
  "dquote = CHR 0x22"

definition squote :: char where
  "squote = CHR 0x27"

text \<open>ARCH-001, the import patterns.
  \<^verbatim>\<open>reGoImport = ^\s*"([^"]+)"\<close>
  \<^verbatim>\<open>rePyImport = (?:^from\s+(\S+)\s+import|^import\s+(\S+))\<close>
  \<^verbatim>\<open>reJSImport = (?:(?:import\s+.*\s+from|require)\s*\(?\s*['"](\.[^'"]+)['"])\<close>\<close>

definition reGoImport :: rx where
  "reGoImport = seqs [Bol, Star cls_s, Sym [dquote], Grp 1 (plus (NSym [dquote])), Sym [dquote]]"

definition rePyImport :: rx where
  "rePyImport =
     alts [seqs [Bol, lit ''from'', plus cls_s, Grp 1 (plus cls_S), plus cls_s, lit ''import''],
           seqs [Bol, lit ''import'', plus cls_s, Grp 2 (plus cls_S)]]"

definition reJSImport :: rx where
  "reJSImport =
     seqs [alts [seqs [lit ''import'', plus cls_s, Star dot, plus cls_s, lit ''from''],
                 lit ''require''],
           Star cls_s, opt (Sym ''(''), Star cls_s, Sym [squote, dquote],
           Grp 1 (seqs [Sym ''.'', plus (NSym [squote, dquote])]), Sym [squote, dquote]]"

text \<open>ARCH-002, the export patterns.
  \<^verbatim>\<open>reGoExport = ^(?:func|type|var|const)\s+([A-Z]\w*)\<close>
  \<^verbatim>\<open>rePyExport = ^(?:def|class)\s+([A-Za-z]\w*)\s*[\(:]\<close>
  \<^verbatim>\<open>reJSExport = (?:^export\s+(?:default\s+)?(?:function|class|const|let|var|interface|type|enum)\s+(\w+)|^module\.exports)\<close>
  \<^verbatim>\<open>rePyAllExport = ^__all__\s*=\<close>\<close>

definition reGoExport :: rx where
  "reGoExport =
     seqs [Bol, alts [lit ''func'', lit ''type'', lit ''var'', lit ''const''], plus cls_s,
           Grp 1 (seqs [Sym upper_chars, Star cls_w])]"

definition rePyExport :: rx where
  "rePyExport =
     seqs [Bol, alts [lit ''def'', lit ''class''], plus cls_s,
           Grp 1 (seqs [Sym (upper_chars @ lower_chars), Star cls_w]), Star cls_s, Sym ''(:'']"

definition reJSExport :: rx where
  "reJSExport =
     alts [seqs [Bol, lit ''export'', plus cls_s, opt (seqs [lit ''default'', plus cls_s]),
                 alts [lit ''function'', lit ''class'', lit ''const'', lit ''let'', lit ''var'',
                       lit ''interface'', lit ''type'', lit ''enum''],
                 plus cls_s, Grp 1 (plus cls_w)],
           seqs [Bol, lit ''module.exports'']]"

definition rePyAllExport :: rx where
  "rePyAllExport = seqs [Bol, lit ''__all__'', Star cls_s, lit ''='']"

text \<open>ARCH-003, the patterns of security-critical code.
  \<^verbatim>\<open>reCryptoGo = (?i)(?:crypto/|golang\.org/x/crypto|bcrypt|argon2|hmac\.New|cipher\.|hash\.)\<close>
  \<^verbatim>\<open>reCryptoPy = (?i)(?:from\s+cryptography|import\s+hashlib|import\s+hmac|from\s+Crypto|bcrypt\.|passlib\.)\<close>
  \<^verbatim>\<open>reCryptoJS = (?i)(?:require\s*\(\s*['"]crypto['"]|from\s+['"]crypto['"]|bcrypt|argon2|jsonwebtoken|jose)\<close>
  \<^verbatim>\<open>reAuthGo = (?i)(?:func\s+\w*(?:Auth|Login|Verify|Validate(?:Token|JWT|Password)))\s*\(\<close>
  \<^verbatim>\<open>reAuthPy = (?i)(?:def\s+\w*(?:auth|login|verify|validate_(?:token|jwt|password)))\s*\(\<close>
  \<^verbatim>\<open>reAuthJS = (?i)(?:function\s+\w*(?:auth|login|verify|validate(?:Token|JWT|Password)))\s*\(\<close>
  \<^verbatim>\<open>reBizLogic = (?i)(?:func|def|function)\s+\w*(?:handle|process|create|update|delete|get|list|fetch|save|submit|calculate|compute)\w*\s*\(\<close>
  \<^verbatim>\<open>reDBAccess = (?i)(?:\.(?:Query|Exec|Execute|Find|Create|Save|Delete|Remove|Insert|Update)\s*\(|SELECT\s|INSERT\s|UPDATE\s|DELETE\s)\<close>
  \<^verbatim>\<open>reHTTPRoute = (?i)(?:app\.(?:get|post|put|delete|patch)|http\.HandleFunc|router\.|@app\.route)\<close>\<close>

definition reCryptoGo :: rx where
  "reCryptoGo =
     alts [lit_ci ''crypto/'', lit_ci ''golang.org/x/crypto'', lit_ci ''bcrypt'', lit_ci ''argon2'',
           lit_ci ''hmac.New'', lit_ci ''cipher.'', lit_ci ''hash.'']"

definition reCryptoPy :: rx where
  "reCryptoPy =
     alts [seqs [lit_ci ''from'', plus cls_s, lit_ci ''cryptography''],
           seqs [lit_ci ''import'', plus cls_s, lit_ci ''hashlib''],
           seqs [lit_ci ''import'', plus cls_s, lit_ci ''hmac''],
           seqs [lit_ci ''from'', plus cls_s, lit_ci ''Crypto''],
           lit_ci ''bcrypt.'', lit_ci ''passlib.'']"

definition reCryptoJS :: rx where
  "reCryptoJS =
     alts [seqs [lit_ci ''require'', Star cls_s, Sym ''('', Star cls_s, Sym [squote, dquote],
                 lit_ci ''crypto'', Sym [squote, dquote]],
           seqs [lit_ci ''from'', plus cls_s, Sym [squote, dquote], lit_ci ''crypto'',
                 Sym [squote, dquote]],
           lit_ci ''bcrypt'', lit_ci ''argon2'', lit_ci ''jsonwebtoken'', lit_ci ''jose'']"

definition reAuthGo :: rx where
  "reAuthGo =
     seqs [lit_ci ''func'', plus cls_s, Star cls_w_ci,
           alts [lit_ci ''Auth'', lit_ci ''Login'', lit_ci ''Verify'',
                 seqs [lit_ci ''Validate'',
                       alts [lit_ci ''Token'', lit_ci ''JWT'', lit_ci ''Password'']]],
           Star cls_s, Sym ''('']"

definition reAuthPy :: rx where
  "reAuthPy =
     seqs [lit_ci ''def'', plus cls_s, Star cls_w_ci,
           alts [lit_ci ''auth'', lit_ci ''login'', lit_ci ''verify'',
                 seqs [lit_ci ''validate_'',
                       alts [lit_ci ''token'', lit_ci ''jwt'', lit_ci ''password'']]],
           Star cls_s, Sym ''('']"

definition reAuthJS :: rx where
  "reAuthJS =
     seqs [lit_ci ''function'', plus cls_s, Star cls_w_ci,
           alts [lit_ci ''auth'', lit_ci ''login'', lit_ci ''verify'',
                 seqs [lit_ci ''validate'',
                       alts [lit_ci ''Token'', lit_ci ''JWT'', lit_ci ''Password'']]],
           Star cls_s, Sym ''('']"

definition reBizLogic :: rx where
  "reBizLogic =
     seqs [alts [lit_ci ''func'', lit_ci ''def'', lit_ci ''function''], plus cls_s, Star cls_w_ci,
           alts [lit_ci ''handle'', lit_ci ''process'', lit_ci ''create'', lit_ci ''update'',
                 lit_ci ''delete'', lit_ci ''get'', lit_ci ''list'', lit_ci ''fetch'',
                 lit_ci ''save'', lit_ci ''submit'', lit_ci ''calculate'', lit_ci ''compute''],
           Star cls_w_ci, Star cls_s, Sym ''('']"

definition reDBAccess :: rx where
  "reDBAccess =
     alts [seqs [Sym ''.'',
                 alts [lit_ci ''Query'', lit_ci ''Exec'', lit_ci ''Execute'', lit_ci ''Find'',
                       lit_ci ''Create'', lit_ci ''Save'', lit_ci ''Delete'', lit_ci ''Remove'',
                       lit_ci ''Insert'', lit_ci ''Update''],
                 Star cls_s, Sym ''(''],
           seqs [lit_ci ''SELECT'', cls_s], seqs [lit_ci ''INSERT'', cls_s],
           seqs [lit_ci ''UPDATE'', cls_s], seqs [lit_ci ''DELETE'', cls_s]]"

definition reHTTPRoute :: rx where
  "reHTTPRoute =
     alts [seqs [lit_ci ''app.'',
                 alts [lit_ci ''get'', lit_ci ''post'', lit_ci ''put'', lit_ci ''delete'',
                       lit_ci ''patch'']],
           lit_ci ''http.HandleFunc'', lit_ci ''router.'', lit_ci ''@app.route'']"

text \<open>ARCH-004, the patterns of a missing abstraction layer.
  \<^verbatim>\<open>reSQLInHandler = (?i)(?:SELECT\s+.+\s+FROM|INSERT\s+INTO|UPDATE\s+.+\s+SET|DELETE\s+FROM|db\.(?:Query|Exec|Execute|Raw)\s*\()\<close>
  \<^verbatim>\<open>reHandlerFunc = (?i)(?:func\s+\w*(?:Handle|handler|Controller|Ctrl)\w*|def\s+\w*(?:view|handler|controller)\w*|(?:app|router)\.\s*(?:get|post|put|delete|patch))\<close>\<close>

definition reSQLInHandler :: rx where
  "reSQLInHandler =
     alts [seqs [lit_ci ''SELECT'', plus cls_s, plus dot, plus cls_s, lit_ci ''FROM''],
           seqs [lit_ci ''INSERT'', plus cls_s, lit_ci ''INTO''],
           seqs [lit_ci ''UPDATE'', plus cls_s, plus dot, plus cls_s, lit_ci ''SET''],
           seqs [lit_ci ''DELETE'', plus cls_s, lit_ci ''FROM''],
           seqs [lit_ci ''db.'',
                 alts [lit_ci ''Query'', lit_ci ''Exec'', lit_ci ''Execute'', lit_ci ''Raw''],
                 Star cls_s, Sym ''('']]"

definition reHandlerFunc :: rx where
  "reHandlerFunc =
     alts [seqs [lit_ci ''func'', plus cls_s, Star cls_w_ci,
                 alts [lit_ci ''Handle'', lit_ci ''handler'', lit_ci ''Controller'',
                       lit_ci ''Ctrl''],
                 Star cls_w_ci],
           seqs [lit_ci ''def'', plus cls_s, Star cls_w_ci,
                 alts [lit_ci ''view'', lit_ci ''handler'', lit_ci ''controller''],
                 Star cls_w_ci],
           seqs [alts [lit_ci ''app'', lit_ci ''router''], Sym ''.'', Star cls_s,
                 alts [lit_ci ''get'', lit_ci ''post'', lit_ci ''put'', lit_ci ''delete'',
                       lit_ci ''patch'']]]"

text \<open>The extensions to scan, the directories to skip, and the thresholds of ARCH-002.\<close>

definition sourceExtensions :: "string list" where
  "sourceExtensions = [''.go'', ''.py'', ''.js'', ''.ts'']"

definition skippedDirs :: "string list" where
  "skippedDirs =
     [''.git'', ''vendor'', ''node_modules'', ''__pycache__'', ''.venv'', ''dist'', ''build'']"

section \<open>ARCH-002: god objects\<close>

definition godFileThreshold :: nat where
  "godFileThreshold = 500"

definition godExportThreshold :: nat where
  "godExportThreshold = 10"

definition checkGodObject :: "response \<Rightarrow> fileInfo \<Rightarrow> response" where
  "checkGodObject resp fi =
     (if lineCount fi > godFileThreshold \<and> exports fi \<ge> godExportThreshold then
        resp @
        [\<lparr>ruleID = ''ARCH-002'', severity = SeverityMedium, confidence = ConfidenceMedium,
          message = ''God object/file detected: '' @ fmt_d (lineCount fi) @ '' lines with '' @
                    fmt_d (exports fi) @ '' exports'',
          filePath = path fi, startLine = 1, endLine = 1,
          metadata = [(''line_count'', fmt_d (lineCount fi)),
                      (''export_count'', fmt_d (exports fi)),
                      (''language'', extToLanguage (ext fi))]\<rparr>]
      else resp)"

section \<open>ARCH-003: security-critical code mixed with business logic\<close>

text \<open>The local variables of \<^verbatim>\<open>checkSecurityMixing\<close>, updated line by line.\<close>

record mixing =
  hasCrypto :: bool
  hasAuth :: bool
  hasBizLogic :: bool
  hasDBAccess :: bool
  hasHTTPRoutes :: bool
  cryptoLine :: nat
  authLine :: nat

definition mixing_init :: mixing where
  "mixing_init =
     \<lparr>hasCrypto = False, hasAuth = False, hasBizLogic = False, hasDBAccess = False,
      hasHTTPRoutes = False, cryptoLine = 0, authLine = 0\<rparr>"

definition note_crypto :: "rx \<Rightarrow> nat \<Rightarrow> string \<Rightarrow> mixing \<Rightarrow> mixing" where
  "note_crypto re i ln m =
     (if MatchString re ln
      then m\<lparr>hasCrypto := True, cryptoLine := (if cryptoLine m = 0 then i + 1 else cryptoLine m)\<rparr>
      else m)"

definition note_auth :: "rx \<Rightarrow> nat \<Rightarrow> string \<Rightarrow> mixing \<Rightarrow> mixing" where
  "note_auth re i ln m =
     (if MatchString re ln
      then m\<lparr>hasAuth := True, authLine := (if authLine m = 0 then i + 1 else authLine m)\<rparr>
      else m)"

text \<open>The body of the loop over \<^verbatim>\<open>fi.lines\<close>, for the line \<open>ln\<close> at index \<open>i\<close>.\<close>

definition mixing_step :: "string \<Rightarrow> mixing \<Rightarrow> nat \<times> string \<Rightarrow> mixing" where
  "mixing_step e m il =
     (let i = fst il; ln = snd il;
          m1 = (if e = ''.go'' then note_auth reAuthGo i ln (note_crypto reCryptoGo i ln m)
                else if e = ''.py'' then note_auth reAuthPy i ln (note_crypto reCryptoPy i ln m)
                else if e = ''.js'' \<or> e = ''.ts''
                  then note_auth reAuthJS i ln (note_crypto reCryptoJS i ln m)
                else m);
          m2 = (if MatchString reBizLogic ln then m1\<lparr>hasBizLogic := True\<rparr> else m1);
          m3 = (if MatchString reDBAccess ln then m2\<lparr>hasDBAccess := True\<rparr> else m2)
      in if MatchString reHTTPRoute ln then m3\<lparr>hasHTTPRoutes := True\<rparr> else m3)"

definition checkSecurityMixing :: "response \<Rightarrow> fileInfo \<Rightarrow> response" where
  "checkSecurityMixing resp fi =
     (let m = foldl (mixing_step (ext fi)) mixing_init (enumerate 0 (lines fi));
          securityCritical = (hasCrypto m \<or> hasAuth m);
          businessMixed = (hasBizLogic m \<or> hasDBAccess m \<or> hasHTTPRoutes m)
      in if securityCritical \<and> businessMixed then
           (let reportLine = (if cryptoLine m = 0 then authLine m else cryptoLine m);
                detail = (if hasCrypto m \<and> hasAuth m then ''crypto/auth''
                          else if hasAuth m then ''auth'' else ''crypto'')
            in resp @
               [\<lparr>ruleID = ''ARCH-003'', severity = SeverityHigh, confidence = ConfidenceHigh,
                 message = ''Security-critical code ('' @ detail @
                           '') mixed with business logic in same file'',
                 filePath = path fi, startLine = reportLine, endLine = reportLine,
                 metadata = [(''has_crypto'', fmt_t (hasCrypto m)),
                             (''has_auth'', fmt_t (hasAuth m)),
                             (''has_business_logic'', fmt_t (hasBizLogic m)),
                             (''language'', extToLanguage (ext fi))]\<rparr>])
         else resp)"

section \<open>ARCH-004: missing abstraction layer\<close>

definition abstraction_finding :: "fileInfo \<Rightarrow> nat \<times> string \<Rightarrow> finding" where
  "abstraction_finding fi il =
     \<lparr>ruleID = ''ARCH-004'', severity = SeverityLow, confidence = ConfidenceMedium,
      message = ''Missing abstraction layer: direct database call in handler: '' @
                strings_TrimSpace (snd il),
      filePath = path fi, startLine = fst il + 1, endLine = fst il + 1,
      metadata = [(''language'', extToLanguage (ext fi))]\<rparr>"

definition checkMissingAbstraction :: "response \<Rightarrow> fileInfo \<Rightarrow> response" where
  "checkMissingAbstraction resp fi =
     (let isHandler = list_ex (MatchString reHandlerFunc) (lines fi)
      in if \<not> isHandler then resp
         else foldl (\<lambda>r il. if MatchString reSQLInHandler (snd il)
                              then r @ [abstraction_finding fi il] else r)
                    resp (enumerate 0 (lines fi)))"

section \<open>Paths\<close>

text \<open>
  The functions of \<^verbatim>\<open>path/filepath\<close> that the scan uses, for a system whose separator is the
  slash and whose paths have no volume name.
\<close>

fun splitc :: "char \<Rightarrow> string \<Rightarrow> string list" where
  "splitc c [] = [[]]"
| "splitc c (x # xs) =
     (if x = c then [] # splitc c xs
      else (case splitc c xs of e # es \<Rightarrow> (x # e) # es | [] \<Rightarrow> [[x]]))"

fun joinc :: "string list \<Rightarrow> string" where
  "joinc [] = []"
| "joinc [e] = e"
| "joinc (e # es) = e @ ''/'' @ joinc es"

text \<open>
  \<^verbatim>\<open>filepath.Clean\<close>, element by element: empty elements and \<^verbatim>\<open>.\<close> are dropped; \<^verbatim>\<open>..\<close>
  removes the element before it, is dropped at the root, and is kept at the beginning of a
  path that is not rooted.  The second argument holds the elements written so far, the last
  one first.
\<close>

fun clean_elems :: "bool \<Rightarrow> string list \<Rightarrow> string list \<Rightarrow> string list" where
  "clean_elems rooted out [] = rev out"
| "clean_elems rooted out (e # es) =
     (if e = [] \<or> e = ''.'' then clean_elems rooted out es
      else if e = ''..'' then
        (case out of
           [] \<Rightarrow> if rooted then clean_elems rooted [] es else clean_elems rooted [''..''] es
         | x # xs \<Rightarrow>
             if x = ''..'' then clean_elems rooted (''..'' # out) es
             else clean_elems rooted xs es)
      else clean_elems rooted (e # out) es)"

definition filepath_Clean :: "string \<Rightarrow> string" where
  "filepath_Clean p =
     (if p = [] then ''.''
      else (let rooted = (hd p = CHR ''/'');
                s = (if rooted then ''/'' else []) @
                    joinc (clean_elems rooted [] (splitc CHR ''/'' p))
            in if s = [] then ''.'' else s))"

definition filepath_Join :: "string \<Rightarrow> string \<Rightarrow> string" where
  "filepath_Join a b =
     (if a \<noteq> [] then filepath_Clean (a @ ''/'' @ b)
      else if b \<noteq> [] then filepath_Clean b
      else [])"

definition last_elem :: "string \<Rightarrow> string" where
  "last_elem p = rev (takeWhile (\<lambda>c. c \<noteq> CHR ''/'') (rev p))"

definition filepath_Base :: "string \<Rightarrow> string" where
  "filepath_Base p =
     (if p = [] then ''.''
      else (let q = rev (dropWhile (\<lambda>c. c = CHR ''/'') (rev p))
            in if q = [] then ''/'' else last_elem q))"

definition filepath_Dir :: "string \<Rightarrow> string" where
  "filepath_Dir p = filepath_Clean (rev (dropWhile (\<lambda>c. c \<noteq> CHR ''/'') (rev p)))"

definition filepath_Ext :: "string \<Rightarrow> string" where
  "filepath_Ext p =
     (let e = last_elem p
      in if CHR ''.'' \<in> set e then CHR ''.'' # rev (takeWhile (\<lambda>c. c \<noteq> CHR ''.'') (rev e))
         else [])"

fun drop_common :: "'a list \<Rightarrow> 'a list \<Rightarrow> 'a list \<times> 'a list" where
  "drop_common (x # xs) (y # ys) = (if x = y then drop_common xs ys else (x # xs, y # ys))"
| "drop_common xs ys = (xs, ys)"

text \<open>
  The elements that \<^verbatim>\<open>filepath.Rel\<close> compares in a cleaned path; a rooted path starts with
  an empty element.
\<close>

definition rel_elems :: "string \<Rightarrow> string list" where
  "rel_elems p = (if p = [] then [] else if p = ''/'' then [[]] else splitc CHR ''/'' p)"

text \<open>
  \<^verbatim>\<open>filepath.Rel(basepath, targpath)\<close>; \<open>None\<close> is the error.  The elements that the two
  cleaned paths share at their beginning are dropped; the error arises when only one of the
  paths is rooted, or when the first element of the base that differs from the target's is
  \<^verbatim>\<open>..\<close>; otherwise every element left of the base becomes \<^verbatim>\<open>..\<close>, and what is left of
  the target follows.
\<close>

definition filepath_Rel :: "string \<Rightarrow> string \<Rightarrow> string option" where
  "filepath_Rel basepath targpath =
     (let base0 = filepath_Clean basepath; targ = filepath_Clean targpath
      in if targ = base0 then Some ''.''
         else (let base = (if base0 = ''.'' then [] else base0);
                   baseSlashed = (base \<noteq> [] \<and> hd base = CHR ''/'');
                   targSlashed = (targ \<noteq> [] \<and> hd targ = CHR ''/'')
               in if baseSlashed \<noteq> targSlashed then None
                  else (case drop_common (rel_elems base) (rel_elems targ) of
                          (bs, ts) \<Rightarrow>
                            if bs \<noteq> [] \<and> ts \<noteq> [] \<and> hd bs = ''..'' then None
                            else Some (joinc (replicate (length bs) ''..'' @ ts)))))"

text \<open>
  \<^verbatim>\<open>relPath, _ := filepath.Rel(workspaceRoot, path); if relPath == "" { relPath = path }\<close>,
  as both the walk and the circular-dependency analyzer compute it.
\<close>

definition relPath_of :: "string \<Rightarrow> string \<Rightarrow> string" where
  "relPath_of workspaceRoot p =
     (let relPath = (case filepath_Rel workspaceRoot p of None \<Rightarrow> [] | Some r \<Rightarrow> r)
      in if relPath = [] then p else relPath)"

section \<open>ARCH-001: circular dependencies\<close>

text \<open>
  The import graph is a Go map from a file to the modules it imports.  It is modelled as a
  list of entries with distinct keys; Go ranges over a map in an unspecified order, which is
  the order of the list here.
\<close>

type_synonym import_graph = "(string \<times> string list) list"

text \<open>\<^verbatim>\<open>importGraph[k] = append(importGraph[k], v)\<close>\<close>

fun graph_append :: "import_graph \<Rightarrow> string \<Rightarrow> string \<Rightarrow> import_graph" where
  "graph_append [] k v = [(k, [v])]"
| "graph_append ((k', vs) # g) k v =
     (if k' = k then (k', vs @ [v]) # g else (k', vs) # graph_append g k v)"

text \<open>\<^verbatim>\<open>filepath.Base(imp) == pkg || strings.HasSuffix(imp, "/"+pkg)\<close>\<close>

definition imports_package :: "string \<Rightarrow> string \<Rightarrow> bool" where
  "imports_package imp pkg = (filepath_Base imp = pkg \<or> strings_HasSuffix imp (''/'' @ pkg))"

text \<open>
  The two inner loops for one import of the file: is there another file in the graph whose
  package the import names and one of whose imports names the package of the file.
\<close>

definition imported_back :: "string \<Rightarrow> string \<Rightarrow> import_graph \<Rightarrow> importRef \<Rightarrow> bool" where
  "imported_back relPath myPkg importGraph imp =
     list_ex (\<lambda>entry.
                fst entry \<noteq> relPath \<and>
                imports_package (module imp) (filepath_Base (filepath_Dir (fst entry))) \<and>
                list_ex (\<lambda>otherImp. imports_package otherImp myPkg) (snd entry))
             importGraph"

text \<open>
  The outer loop returns at the first import for which the inner loops find a match, after
  reporting the finding.
\<close>

definition checkCircularDeps ::
  "response \<Rightarrow> fileInfo \<Rightarrow> import_graph \<Rightarrow> string \<Rightarrow> response" where
  "checkCircularDeps resp fi importGraph workspaceRoot =
     (let relPath = relPath_of workspaceRoot (path fi);
          myDir = filepath_Dir relPath;
          myPkg = filepath_Base myDir
      in case find (imported_back relPath myPkg importGraph) (importRefs fi) of
           None \<Rightarrow> resp
         | Some imp \<Rightarrow>
             resp @
             [\<lparr>ruleID = ''ARCH-001'', severity = SeverityMedium, confidence = ConfidenceHigh,
               message = ''Circular dependency risk: '' @ relPath @ '' imports '' @ module imp @
                         '' which imports back'',
               filePath = path fi, startLine = line imp, endLine = line imp,
               metadata = [(''imported_module'', module imp),
                           (''language'', extToLanguage (ext fi))]\<rparr>])"

section \<open>The file parser\<close>

text \<open>
  What reading a file gives: it cannot be opened; or it delivers some bytes and then a read
  error; or it delivers its contents up to the end of the file.
\<close>

datatype file_read = OpenError | ReadError string | Contents string

text \<open>
  \<^verbatim>\<open>bufio.Scanner\<close> with its default split function \<^verbatim>\<open>ScanLines\<close> and its default buffer:
  a line ends at a newline or at the end of the input, one trailing carriage return is
  dropped, and an empty last line is not delivered.  The scanner stops with
  \<^verbatim>\<open>ErrTooLong\<close> when 65536 bytes hold no newline.  The result is the lines delivered and
  whether the scanner stopped with that error.
\<close>

definition maxScanTokenSize :: nat where
  "maxScanTokenSize = 65536"

definition dropCR :: "string \<Rightarrow> string" where
  "dropCR data = (if data \<noteq> [] \<and> last data = CHR 0x0D then butlast data else data)"

text \<open>A token that fills the buffer: no newline among the first 65536 bytes.\<close>

definition token_too_long :: "string \<Rightarrow> bool" where
  "token_too_long tok = (maxScanTokenSize \<le> length tok)"

lemma token_too_long_code [code]: "token_too_long tok = (65536 \<le> int (length tok))"
  by (simp add: token_too_long_def maxScanTokenSize_def)

function scan_lines :: "string \<Rightarrow> string list \<times> bool" where
  "scan_lines data =
     (if data = [] then ([], False)
      else (let tok = takeWhile (\<lambda>c. c \<noteq> CHR 0x0A) data
            in if token_too_long tok then ([], True)
               else if length tok < length data
                 then (case scan_lines (drop (length tok + 1) data) of
                         (ls, err) \<Rightarrow> (dropCR tok # ls, err))
               else ([dropCR tok], False)))"
  by pat_completeness auto
termination
  by (relation "measure length") auto

declare scan_lines.simps [simp del]

text \<open>
  The body of the loop \<^verbatim>\<open>for scanner.Scan()\<close>: the state is the summary built so far and
  \<^verbatim>\<open>lineNum\<close>.
\<close>

definition add_import :: "string \<Rightarrow> nat \<Rightarrow> fileInfo \<Rightarrow> fileInfo" where
  "add_import m lineNum info =
     info\<lparr>importRefs := importRefs info @ [\<lparr>module = m, line = lineNum\<rparr>]\<rparr>"

definition add_export :: "bool \<Rightarrow> fileInfo \<Rightarrow> fileInfo" where
  "add_export b info = (if b then info\<lparr>exports := exports info + 1\<rparr> else info)"

definition parse_line :: "string \<Rightarrow> fileInfo \<times> nat \<Rightarrow> string \<Rightarrow> fileInfo \<times> nat" where
  "parse_line e acc ln =
     (let lineNum = snd acc + 1;
          info = (fst acc)\<lparr>lines := lines (fst acc) @ [ln]\<rparr>
      in if e = ''.go'' then
           (let m = FindStringSubmatch reGoImport ln;
                info1 = (if length m > 1 then add_import (m ! 1) lineNum info else info)
            in (add_export (MatchString reGoExport ln) info1, lineNum))
         else if e = ''.py'' then
           (let m = FindStringSubmatch rePyImport ln;
                info1 = (if length m > 0 then
                           (let m1 = (if m ! 1 = [] then m ! 2 else m ! 1)
                            in if m1 \<noteq> [] then add_import m1 lineNum info else info)
                         else info)
            in (add_export (MatchString rePyExport ln \<or> MatchString rePyAllExport ln) info1,
                lineNum))
         else if e = ''.js'' \<or> e = ''.ts'' then
           (let m = FindStringSubmatch reJSImport ln;
                info1 = (if length m > 1 \<and> m ! 1 \<noteq> [] then add_import (m ! 1) lineNum info
                         else info)
            in (add_export (MatchString reJSExport ln) info1, lineNum))
         else (info, lineNum))"

definition parse_lines :: "string \<Rightarrow> string \<Rightarrow> string list \<Rightarrow> fileInfo" where
  "parse_lines p e ls =
     (case foldl (parse_line e)
             (\<lparr>path = p, ext = e, lines = [], importRefs = [], exports = 0, lineCount = 0\<rparr>, 0)
             ls of
        (info, lineNum) \<Rightarrow> info\<lparr>lineCount := lineNum\<rparr>)"

text \<open>
  \<^verbatim>\<open>parseFile\<close> returns a summary and an error; the second component tells whether the
  error is not \<^verbatim>\<open>nil\<close>.  When the file cannot be opened the summary is the zero value.
\<close>

definition parseFile :: "string \<Rightarrow> string \<Rightarrow> file_read \<Rightarrow> fileInfo \<times> bool" where
  "parseFile p e rd =
     (case rd of
        OpenError \<Rightarrow>
          (\<lparr>path = [], ext = [], lines = [], importRefs = [], exports = 0, lineCount = 0\<rparr>, True)
      | ReadError bytes \<Rightarrow> (parse_lines p e (fst (scan_lines bytes)), True)
      | Contents bytes \<Rightarrow> (case scan_lines bytes of (ls, err) \<Rightarrow> (parse_lines p e ls, err)))"

section \<open>The workspace walk\<close>

text \<open>
  What \<^verbatim>\<open>filepath.WalkDir\<close> finds at a path: a file (anything that is not a directory)
  with its name and what reading it gives, or a directory with its name, whether reading the
  directory reports an error, and the entries that \<^verbatim>\<open>os.ReadDir\<close> returns, sorted by name.
\<close>

datatype fsnode = FileNode string file_read | DirNode string bool "fsnode list"

fun node_name :: "fsnode \<Rightarrow> string" where
  "node_name (FileNode n rd) = n"
| "node_name (DirNode n re ds) = n"

text \<open>
  The context of the request: it is never done, or it is done from some poll of
  \<^verbatim>\<open>ctx.Err()\<close> on, with the error \<^verbatim>\<open>context.Canceled\<close> or
  \<^verbatim>\<open>context.DeadlineExceeded\<close>.  The scan polls the context once for every entry that the
  walk visits; \<open>Some (n, e)\<close> is the context whose first \<open>n\<close> polls return \<^verbatim>\<open>nil\<close>.
\<close>

datatype ctx_error = Canceled | DeadlineExceeded

type_synonym ctx = "(nat \<times> ctx_error) option"

definition ctx_Err :: "ctx \<Rightarrow> nat \<Rightarrow> ctx_error option" where
  "ctx_Err c k = (case c of None \<Rightarrow> None | Some (n, e) \<Rightarrow> if k < n then None else Some e)"

text \<open>
  The variables that the callback of the walk captures: the summaries collected, the import
  graph, and the number of polls of the context so far.
\<close>

record walk_state =
  files :: "fileInfo list"
  importGraph :: import_graph
  polls :: nat

definition walk_init :: walk_state where
  "walk_init = \<lparr>files = [], importGraph = [], polls = 0\<rparr>"

text \<open>
  The errors that the callback returns: \<^verbatim>\<open>filepath.SkipDir\<close> and the error of the context.
  The callback is called with an entry and no error, or with an error (the root cannot be
  examined, or a directory cannot be read).
\<close>

datatype walk_error = SkipDir | CtxErr ctx_error

datatype walk_call = WalkErr | Entry fsnode

definition scan_callback ::
  "ctx \<Rightarrow> string \<Rightarrow> string \<Rightarrow> walk_call \<Rightarrow> walk_state \<Rightarrow> walk_error option \<times> walk_state" where
  "scan_callback c workspaceRoot p call st =
     (case call of
        WalkErr \<Rightarrow> (None, st)
      | Entry d \<Rightarrow>
          (case ctx_Err c (polls st) of
             Some e \<Rightarrow> (Some (CtxErr e), st\<lparr>polls := polls st + 1\<rparr>)
           | None \<Rightarrow>
               (let st1 = st\<lparr>polls := polls st + 1\<rparr>
                in case d of
                     DirNode n re ds \<Rightarrow>
                       if n \<in> set skippedDirs then (Some SkipDir, st1) else (None, st1)
                   | FileNode n rd \<Rightarrow>
                       (let e = filepath_Ext p
                        in if e \<notin> set sourceExtensions then (None, st1)
                           else (case parseFile p e rd of
                                   (info, True) \<Rightarrow> (None, st1)
                                 | (info, False) \<Rightarrow>
                                     (None,
                                      st1\<lparr>files := files st1 @ [info],
                                          importGraph :=
                                            foldl (\<lambda>g imp. graph_append g
                                                     (relPath_of workspaceRoot p) (module imp))
                                                  (importGraph st1) (importRefs info)\<rparr>))))))"

text \<open>
  \<^verbatim>\<open>filepath.walkDir\<close>: the callback is called for the entry; a directory that is not
  skipped is read, a failure to read it is reported to the callback, and the entries are
  walked in order; \<^verbatim>\<open>SkipDir\<close> from an entry ends the loop over the entries.
\<close>

fun walkDir ::
  "ctx \<Rightarrow> string \<Rightarrow> string \<Rightarrow> fsnode \<Rightarrow> walk_state \<Rightarrow> walk_error option \<times> walk_state"
and walkEntries ::
  "ctx \<Rightarrow> string \<Rightarrow> string \<Rightarrow> fsnode list \<Rightarrow> walk_state \<Rightarrow> walk_error option \<times> walk_state"
where
  "walkDir c root p (FileNode n rd) st = scan_callback c root p (Entry (FileNode n rd)) st"
| "walkDir c root p (DirNode n re ds) st =
     (case scan_callback c root p (Entry (DirNode n re ds)) st of
        (Some SkipDir, st1) \<Rightarrow> (None, st1)
      | (Some (CtxErr e), st1) \<Rightarrow> (Some (CtxErr e), st1)
      | (None, st1) \<Rightarrow>
          (if re then
             (case scan_callback c root p WalkErr st1 of
                (Some SkipDir, st2) \<Rightarrow> (None, st2)
              | (Some (CtxErr e), st2) \<Rightarrow> (Some (CtxErr e), st2)
              | (None, st2) \<Rightarrow> walkEntries c root p ds st2)
           else walkEntries c root p ds st1))"
| "walkEntries c root p [] st = (None, st)"
| "walkEntries c root p (d # ds) st =
     (case walkDir c root (filepath_Join p (node_name d)) d st of
        (Some SkipDir, st1) \<Rightarrow> (None, st1)
      | (Some (CtxErr e), st1) \<Rightarrow> (Some (CtxErr e), st1)
      | (None, st1) \<Rightarrow> walkEntries c root p ds st1)"

text \<open>
  \<^verbatim>\<open>filepath.WalkDir(root, fn)\<close>: \<open>None\<close> for the root means that \<^verbatim>\<open>os.Lstat(root)\<close>
  fails, which is reported to the callback; \<^verbatim>\<open>SkipDir\<close> from the walk is no error.
\<close>

definition WalkDir ::
  "ctx \<Rightarrow> string \<Rightarrow> fsnode option \<Rightarrow> walk_state \<Rightarrow> walk_error option \<times> walk_state" where
  "WalkDir c root lstat st =
     (case (case lstat of
              None \<Rightarrow> scan_callback c root root WalkErr st
            | Some d \<Rightarrow> walkDir c root root d st) of
        (Some SkipDir, st1) \<Rightarrow> (None, st1)
      | r \<Rightarrow> r)"

section \<open>The scan\<close>

text \<open>
  The request carries the input of the tool, a map from names to values of any type, and the
  workspace root of the host.
\<close>

datatype anyval = StringVal string | OtherVal

record ToolRequest =
  Input :: "string \<Rightarrow> anyval option"
  WorkspaceRoot :: string

datatype scan_error = WalkingWorkspace walk_error

text \<open>The four analyzers in the order of the loop over \<^verbatim>\<open>files\<close>.\<close>

definition analyze_file :: "string \<Rightarrow> import_graph \<Rightarrow> response \<Rightarrow> fileInfo \<Rightarrow> response" where
  "analyze_file workspaceRoot g resp fi =
     checkMissingAbstraction
       (checkSecurityMixing (checkGodObject (checkCircularDeps resp fi g workspaceRoot) fi) fi) fi"

definition analyze :: "string \<Rightarrow> walk_state \<Rightarrow> response" where
  "analyze workspaceRoot st = foldl (analyze_file workspaceRoot (importGraph st)) [] (files st)"

text \<open>
  \<^verbatim>\<open>handleScan\<close>: the root is the string \<^verbatim>\<open>workspace_root\<close> of the input, or the
  workspace root of the host when that is missing, empty or not a string.  The file system is
  given by what the walk finds at a root path.  The result is the error (\<open>Inl\<close>) or the
  findings of the response (\<open>Inr\<close>).
\<close>

definition request_root :: "ToolRequest \<Rightarrow> string" where
  "request_root req =
     (let workspaceRoot = (case Input req ''workspace_root'' of
                             Some (StringVal s) \<Rightarrow> s
                           | _ \<Rightarrow> [])
      in if workspaceRoot = [] then WorkspaceRoot req else workspaceRoot)"

definition handleScan ::
  "ctx \<Rightarrow> (string \<Rightarrow> fsnode option) \<Rightarrow> ToolRequest \<Rightarrow> scan_error + response" where
  "handleScan c fs req =
     (let workspaceRoot = request_root req
      in if workspaceRoot = [] then Inr []
         else (case WalkDir c workspaceRoot (fs workspaceRoot) walk_init of
                 (Some err, st) \<Rightarrow>
                   if err \<noteq> CtxErr Canceled then Inl (WalkingWorkspace err)
                   else Inr (analyze workspaceRoot st)
               | (None, st) \<Rightarrow> Inr (analyze workspaceRoot st)))"

section \<open>What the walk can reach\<close>

text \<open>
  The files below a node, each with the path that the walk forms for it and the names of the
  directories above it, from the root down.  The keys that the import graph is expected to
  hold for a list of summaries: the relative paths of the summaries that have an import.
\<close>

fun tree_files :: "string \<Rightarrow> string list \<Rightarrow> fsnode \<Rightarrow> (string \<times> string list) list"
and entries_files :: "string \<Rightarrow> string list \<Rightarrow> fsnode list \<Rightarrow> (string \<times> string list) list"
where
  "tree_files p dirs (FileNode n rd) = [(p, dirs)]"
| "tree_files p dirs (DirNode n re ds) = entries_files p (dirs @ [n]) ds"
| "entries_files p dirs [] = []"
| "entries_files p dirs (d # ds) =
     tree_files (filepath_Join p (node_name d)) dirs d @ entries_files p dirs ds"

definition graph_keys :: "string \<Rightarrow> fileInfo list \<Rightarrow> string set" where
  "graph_keys root fis =
     set (map (\<lambda>fi. relPath_of root (path fi)) (filter (\<lambda>fi. importRefs fi \<noteq> []) fis))"

text \<open>
  The directories that a path names are its elements before the last one.  A path lies
  beneath a skipped directory when one of them has a name of the skip set.
\<close>

definition path_dirs :: "string \<Rightarrow> string list" where
  "path_dirs p = butlast (splitc CHR ''/'' p)"

definition beneath_skipped :: "string \<Rightarrow> bool" where
  "beneath_skipped p = list_ex (\<lambda>d. d \<in> set skippedDirs) (path_dirs p)"

section \<open>The signals of the analyzers\<close>

text \<open>
  The signals that the specification of the security-mixing analyzer speaks of: a line
  carries the cryptography or the authentication signal when it matches the pattern of the
  file's language, and a business signal when it matches the business-logic, data-access or
  route pattern.  \<open>first_line P ls\<close> is the number, counted from one, of the first line that
  satisfies \<open>P\<close>, and zero when there is none.
\<close>

definition crypto_signal :: "string \<Rightarrow> string \<Rightarrow> bool" where
  "crypto_signal e ln =
     (if e = ''.go'' then MatchString reCryptoGo ln
      else if e = ''.py'' then MatchString reCryptoPy ln
      else if e = ''.js'' \<or> e = ''.ts'' then MatchString reCryptoJS ln
      else False)"

definition auth_signal :: "string \<Rightarrow> string \<Rightarrow> bool" where
  "auth_signal e ln =
     (if e = ''.go'' then MatchString reAuthGo ln
      else if e = ''.py'' then MatchString reAuthPy ln
      else if e = ''.js'' \<or> e = ''.ts'' then MatchString reAuthJS ln
      else False)"

definition first_line :: "(string \<Rightarrow> bool) \<Rightarrow> string list \<Rightarrow> nat" where
  "first_line P ls = (if list_ex P ls then length (takeWhile (\<lambda>ln. \<not> P ln) ls) + 1 else 0)"

definition business_signal :: "string \<Rightarrow> bool" where
  "business_signal ln =
     (MatchString reBizLogic ln \<or> MatchString reDBAccess ln \<or> MatchString reHTTPRoute ln)"

text \<open>
  A line whose first character after white space (the class \<^verbatim>\<open>\s\<close>) is a double quote
  that begins a quoted string with the non-empty content \<open>body\<close>.
\<close>

definition quoted_line :: "string \<Rightarrow> string \<Rightarrow> string \<Rightarrow> string \<Rightarrow> bool" where
  "quoted_line ln ws body after =
     (ln = ws @ [dquote] @ body @ [dquote] @ after \<and> set ws \<subseteq> set space_chars \<and>
      body \<noteq> [] \<and> dquote \<notin> set body)"

section \<open>Sample inputs\<close>

text \<open>File summaries and an import graph on which the theorems below are exercised.\<close>

definition big_go :: "nat \<Rightarrow> nat \<Rightarrow> fileInfo" where
  "big_go n k =
     \<lparr>path = ''/ws/big.go'', ext = ''.go'', lines = replicate n [], importRefs = [],
      exports = k, lineCount = n\<rparr>"

definition pay_go :: fileInfo where
  "pay_go = \<lparr>path = ''/ws/pay/pay.go'', ext = ''.go'',
     lines = [''package pay'', ''import '' @ [CHR 0x22] @ ''crypto/hmac'' @ [CHR 0x22],
              ''func processPayment(db *sql.DB) {'', ''}''],
     importRefs = [], exports = 0, lineCount = 4\<rparr>"


definition users_go :: fileInfo where
  "users_go = \<lparr>path = ''/ws/api/users.go'', ext = ''.go'',
     lines = [''func HandleGetUsers(w http.ResponseWriter) {'',
              [CHR 0x09] @ ''rows := db.Query(q)  '',
              [CHR 0x09] @ ''db.Exec(del)'',
              ''}''],
     importRefs = [], exports = 1, lineCount = 4\<rparr>"

definition x_go :: fileInfo where
  "x_go = \<lparr>path = ''/ws/a/x.go'', ext = ''.go'', lines = [],
     importRefs = [\<lparr>module = ''fmt'', line = 3\<rparr>, \<lparr>module = ''example.com/proj/b'', line = 4\<rparr>,
                   \<lparr>module = ''example.com/proj/c'', line = 5\<rparr>],
     exports = 0, lineCount = 0\<rparr>"

definition proj_graph :: import_graph where
  "proj_graph = [(''a/x.go'', [''fmt'', ''example.com/proj/b'', ''example.com/proj/c'']),
                 (''c/z.go'', [''example.com/proj/a'']),
                 (''b/y.go'', [''os'', ''example.com/proj/a''])]"

definition fmt_go :: string where
  "fmt_go = ''import ('' @ [CHR 0x0A] @ [CHR 0x09, dquote] @ ''fmt'' @ [dquote] @ [CHR 0x0A] @
             '')'' @ [CHR 0x0A]"

definition names_go :: string where
  "names_go = ''var names = []string{'' @ [CHR 0x0A] @
              [CHR 0x09, dquote] @ ''alpha'' @ [dquote] @ '','' @ [CHR 0x0A] @ ''}'' @ [CHR 0x0A]"

definition blank_go :: string where
  "blank_go = ''var names = []string{'' @ [CHR 0x0A] @
              [CHR 0x09, dquote, dquote] @ '','' @ [CHR 0x0A] @ ''}'' @ [CHR 0x0A]"

text \<open>
  A workspace with three packages, a text file and a vendored copy of package \<open>b\<close>; what the
  walk finds at two root paths; a request for a root.
\<close>

definition x_src :: string where
  "x_src = ''import ('' @ [CHR 0x0A] @ [CHR 0x09, dquote] @ ''example.com/proj/b'' @ [dquote] @
           [CHR 0x0A] @ '')'' @ [CHR 0x0A]"

definition y_src :: string where
  "y_src = ''import ('' @ [CHR 0x0A] @ [CHR 0x09, dquote] @ ''example.com/proj/a'' @ [dquote] @
           [CHR 0x0A] @ '')'' @ [CHR 0x0A]"

definition sample_tree :: fsnode where
  "sample_tree =
     DirNode ''ws'' False
       [DirNode ''a'' False [FileNode ''x.go'' (Contents x_src)],
        DirNode ''b'' False [FileNode ''y.go'' (Contents y_src)],
        DirNode ''c'' False [FileNode ''z.go'' (Contents (''package c'' @ [CHR 0x0A]))],
        FileNode ''notes.txt'' (Contents ''hello''),
        DirNode ''vendor'' False [DirNode ''b'' False [FileNode ''y.go'' (Contents y_src)]]]"

definition sample_fs :: "string \<Rightarrow> fsnode option" where
  "sample_fs p = (if p = ''/ws'' then Some sample_tree
                  else if p = ''/ws/notes.txt'' then Some (FileNode ''notes.txt'' (Contents ''hello''))
                  else None)"

definition sample_req :: "string \<Rightarrow> ToolRequest" where
  "sample_req root = \<lparr>Input = [''workspace_root'' \<mapsto> StringVal root], WorkspaceRoot = []\<rparr>"

definition x_finding :: finding where
  "x_finding =
     \<lparr>ruleID = ''ARCH-001'', severity = SeverityMedium, confidence = ConfidenceHigh,
      message = ''Circular dependency risk: a/x.go imports example.com/proj/b which imports back'',
      filePath = ''/ws/a/x.go'', startLine = 2, endLine = 2,
      metadata = [(''imported_module'', ''example.com/proj/b''), (''language'', ''go'')]\<rparr>"

text \<open>
  A workspace whose root path runs through a directory named \<open>vendor\<close>: the root is the
  directory \<open>app\<close>, with two packages that import each other.
\<close>

definition app_tree :: fsnode where
  "app_tree =
     DirNode ''app'' False
       [DirNode ''a'' False [FileNode ''x.go'' (Contents x_src)],
        DirNode ''b'' False [FileNode ''y.go'' (Contents y_src)]]"

definition srv_fs :: "string \<Rightarrow> fsnode option" where
  "srv_fs p = (if p = ''/srv/vendor/app'' then Some app_tree else None)"

definition app_finding :: finding where
  "app_finding =
     \<lparr>ruleID = ''ARCH-001'', severity = SeverityMedium, confidence = ConfidenceHigh,
      message = ''Circular dependency risk: a/x.go imports example.com/proj/b which imports back'',
      filePath = ''/srv/vendor/app/a/x.go'', startLine = 2, endLine = 2,
      metadata = [(''imported_module'', ''example.com/proj/b''), (''language'', ''go'')]\<rparr>"

section \<open>The god-object analyzer\<close>

text \<open>
  Claim C1.  For every file summary the god-object analyzer emits a finding exactly when the
  line count is strictly greater than 500 and the export count is at least 10; otherwise the
  response is unchanged.  The finding, when emitted, is the only one appended; it is anchored
  at line 1 and its metadata carries the decimal line count and export count.
\<close>

theorem checkGodObject_iff:
  "(checkGodObject resp fi \<noteq> resp) = (500 < lineCount fi \<and> 10 \<le> exports fi) \<and>
   checkGodObject resp fi =
     (if 500 < lineCount fi \<and> 10 \<le> exports fi
      then resp @ [last (checkGodObject resp fi)] else resp) \<and>
   (if 500 < lineCount fi \<and> 10 \<le> exports fi
    then ruleID (last (checkGodObject resp fi)) = ''ARCH-002'' \<and>
         filePath (last (checkGodObject resp fi)) = path fi \<and>
         startLine (last (checkGodObject resp fi)) = 1 \<and>
         endLine (last (checkGodObject resp fi)) = 1 \<and>
         map_of (metadata (last (checkGodObject resp fi))) ''line_count'' =
           Some (fmt_d (lineCount fi)) \<and>
         map_of (metadata (last (checkGodObject resp fi))) ''export_count'' =
           Some (fmt_d (exports fi))
    else True)"
  by (simp add: checkGodObject_def godFileThreshold_def godExportThreshold_def)

text \<open>
  The boundary: 500 lines with 10 or with 11 exports give no finding; 501 lines with 10
  exports give one finding, at line 1, with the metadata \<open>501\<close> and \<open>10\<close>.
\<close>

theorem checkGodObject_iff_witness:
  "checkGodObject [] (big_go 500 10) = [] \<and>
   checkGodObject [] (big_go 500 11) = [] \<and>
   length (checkGodObject [] (big_go 501 10)) = 1 \<and>
   startLine (last (checkGodObject [] (big_go 501 10))) = 1 \<and>
   map_of (metadata (last (checkGodObject [] (big_go 501 10)))) ''line_count'' = Some ''501'' \<and>
   map_of (metadata (last (checkGodObject [] (big_go 501 10)))) ''export_count'' = Some ''10''"
proof -
  have d1: "fmt_d 501 = ''501''"
    by code_simp
  have d2: "fmt_d 10 = ''10''"
    by code_simp
  have a: "checkGodObject [] (big_go 500 10) = []"
    using checkGodObject_iff [of "[]" "big_go 500 10"] by (simp add: big_go_def)
  have b: "checkGodObject [] (big_go 500 11) = []"
    using checkGodObject_iff [of "[]" "big_go 500 11"] by (simp add: big_go_def)
  have c: "checkGodObject [] (big_go 501 10) = [last (checkGodObject [] (big_go 501 10))] \<and>
           startLine (last (checkGodObject [] (big_go 501 10))) = 1 \<and>
           map_of (metadata (last (checkGodObject [] (big_go 501 10)))) ''line_count'' =
             Some (fmt_d 501) \<and>
           map_of (metadata (last (checkGodObject [] (big_go 501 10)))) ''export_count'' =
             Some (fmt_d 10)"
    using checkGodObject_iff [of "[]" "big_go 501 10"] by (simp add: big_go_def)
  then have "length (checkGodObject [] (big_go 501 10)) = 1"
    by (metis length_Cons list.size(3) One_nat_def)
  with a b c d1 d2 show ?thesis
    by simp
qed

section \<open>The security-mixing analyzer\<close>

lemma mixing_step_eq:
  "mixing_step e m (i, ln) =
     m\<lparr>hasCrypto := hasCrypto m \<or> crypto_signal e ln,
       hasAuth := hasAuth m \<or> auth_signal e ln,
       hasBizLogic := hasBizLogic m \<or> MatchString reBizLogic ln,
       hasDBAccess := hasDBAccess m \<or> MatchString reDBAccess ln,
       hasHTTPRoutes := hasHTTPRoutes m \<or> MatchString reHTTPRoute ln,
       cryptoLine := (if crypto_signal e ln \<and> cryptoLine m = 0 then i + 1 else cryptoLine m),
       authLine := (if auth_signal e ln \<and> authLine m = 0 then i + 1 else authLine m)\<rparr>"
  by (cases m) (simp add: mixing_step_def note_crypto_def note_auth_def crypto_signal_def
      auth_signal_def Let_def)

lemma first_line_snoc:
  "first_line P (ls @ [ln]) =
     (if list_ex P ls then first_line P ls else if P ln then length ls + 1 else 0)"
  by (auto simp: first_line_def list_ex_iff takeWhile_append1 takeWhile_append2)

lemma first_line_eq_0: "(first_line P ls = 0) = (\<not> list_ex P ls)"
  by (simp add: first_line_def)

lemma mixing_fold:
  "foldl (mixing_step e) mixing_init (enumerate 0 ls) =
     \<lparr>hasCrypto = list_ex (crypto_signal e) ls,
      hasAuth = list_ex (auth_signal e) ls,
      hasBizLogic = list_ex (MatchString reBizLogic) ls,
      hasDBAccess = list_ex (MatchString reDBAccess) ls,
      hasHTTPRoutes = list_ex (MatchString reHTTPRoute) ls,
      cryptoLine = first_line (crypto_signal e) ls,
      authLine = first_line (auth_signal e) ls\<rparr>"
proof (induction ls rule: rev_induct)
  case Nil
  show ?case by (simp add: mixing_init_def first_line_def)
next
  case (snoc ln ls)
  show ?case
    by (simp add: enumerate_append_eq snoc.IH mixing_step_eq first_line_snoc first_line_eq_0)
qed

text \<open>What \<open>first_line\<close> denotes when some line satisfies the predicate.\<close>

lemma first_line_first:
  assumes "list_ex P ls"
  shows "1 \<le> first_line P ls" and "first_line P ls \<le> length ls"
    and "P (ls ! (first_line P ls - 1))" and "\<forall>j < first_line P ls - 1. \<not> P (ls ! j)"
proof -
  let ?Q = "\<lambda>ln. \<not> P ln"
  let ?n = "length (takeWhile ?Q ls)"
  have fl: "first_line P ls = ?n + 1"
    using assms by (simp add: first_line_def)
  have "dropWhile ?Q ls \<noteq> []"
    using assms by (auto simp: list_ex_iff)
  moreover have "length ls = ?n + length (dropWhile ?Q ls)"
    by (metis length_append takeWhile_dropWhile_id)
  ultimately have lt: "?n < length ls"
    by simp
  show "1 \<le> first_line P ls" using fl by simp
  show "first_line P ls \<le> length ls" using fl lt by simp
  show "P (ls ! (first_line P ls - 1))"
    using nth_length_takeWhile [OF lt] fl by simp
  show "\<forall>j < first_line P ls - 1. \<not> P (ls ! j)"
  proof (intro allI impI)
    fix j assume "j < first_line P ls - 1"
    then have j: "j < ?n" using fl by simp
    then have "takeWhile ?Q ls ! j \<in> set (takeWhile ?Q ls)" by simp
    then have "\<not> P (takeWhile ?Q ls ! j)" by (rule set_takeWhileD [THEN conjunct2])
    then show "\<not> P (ls ! j)" using j by (simp add: takeWhile_nth)
  qed
qed

text \<open>
  Claim C2.  For every file summary the security-mixing analyzer emits exactly one finding
  when some line carries the cryptography or the authentication signal and some line carries
  a business signal, and no finding otherwise.  The finding is anchored at the first line
  with the cryptography signal, or at the first line with the authentication signal when no
  line has the cryptography signal.
\<close>

theorem checkSecurityMixing_iff:
  "((\<exists>ln\<in>set (lines fi). crypto_signal (ext fi) ln \<or> auth_signal (ext fi) ln) \<and>
    (\<exists>ln\<in>set (lines fi). business_signal ln) \<longrightarrow>
    (\<exists>f. checkSecurityMixing resp fi = resp @ [f] \<and> ruleID f = ''ARCH-003'' \<and>
         filePath f = path fi \<and>
         startLine f =
           (if \<exists>ln\<in>set (lines fi). crypto_signal (ext fi) ln
            then first_line (crypto_signal (ext fi)) (lines fi)
            else first_line (auth_signal (ext fi)) (lines fi)) \<and>
         endLine f = startLine f)) \<and>
   (\<not> ((\<exists>ln\<in>set (lines fi). crypto_signal (ext fi) ln \<or> auth_signal (ext fi) ln) \<and>
       (\<exists>ln\<in>set (lines fi). business_signal ln)) \<longrightarrow>
    checkSecurityMixing resp fi = resp)"
  unfolding checkSecurityMixing_def mixing_fold Let_def
  by (auto simp: list_ex_iff business_signal_def first_line_eq_0)

text \<open>
  A file with a cryptography import on line 2 and a business function on line 3 gives one
  finding at line 2; its first two lines alone, which carry only the cryptography signal,
  give none.
\<close>

theorem checkSecurityMixing_iff_witness:
  "(\<exists>f. checkSecurityMixing [] pay_go = [f] \<and> ruleID f = ''ARCH-003'' \<and>
        filePath f = ''/ws/pay/pay.go'' \<and> startLine f = 2 \<and> endLine f = 2) \<and>
   checkSecurityMixing [] (pay_go\<lparr>lines := take 2 (lines pay_go)\<rparr>) = []"
proof -
  have sec: "\<exists>ln\<in>set (lines pay_go). crypto_signal (ext pay_go) ln"
    by code_simp
  have biz: "\<exists>ln\<in>set (lines pay_go). business_signal ln"
    by code_simp
  have anchor: "first_line (crypto_signal (ext pay_go)) (lines pay_go) = 2"
    by code_simp
  have only: "\<not> (\<exists>ln\<in>set (take 2 (lines pay_go)). business_signal ln)"
    by code_simp
  have p: "path pay_go = ''/ws/pay/pay.go''"
    by (simp add: pay_go_def)
  show ?thesis
    using checkSecurityMixing_iff [of pay_go "[]"]
      checkSecurityMixing_iff [of "pay_go\<lparr>lines := take 2 (lines pay_go)\<rparr>" "[]"]
      sec biz anchor only p
    by auto
qed


section \<open>The missing-abstraction analyzer\<close>

lemma foldl_emit:
  "foldl (\<lambda>r x. if P x then r @ [g x] else r) resp xs = resp @ map g (filter P xs)"
  by (induction xs arbitrary: resp) simp_all

lemma checkMissingAbstraction_eq:
  "checkMissingAbstraction resp fi =
     (if list_ex (MatchString reHandlerFunc) (lines fi)
      then resp @ map (abstraction_finding fi)
                      (filter (\<lambda>il. MatchString reSQLInHandler (snd il)) (enumerate 0 (lines fi)))
      else resp)"
  by (simp add: checkMissingAbstraction_def foldl_emit)


lemma filter_enumerate_snd:
  "map snd (filter (\<lambda>il. P (snd il)) (enumerate n ls)) = filter P ls"
  by (induction ls arbitrary: n) simp_all

text \<open>
  Claim C3.  For every file summary the missing-abstraction analyzer leaves the response
  unchanged when no line matches the handler pattern, however many lines match the
  data-access pattern.  When some line matches the handler pattern it appends one finding
  for every line that matches the data-access pattern, in the order of the lines, each
  anchored at its line and with the trimmed text of the line at the end of the message.
\<close>

theorem checkMissingAbstraction_findings:
  "(\<not> (\<exists>ln\<in>set (lines fi). MatchString reHandlerFunc ln) \<longrightarrow>
      checkMissingAbstraction resp fi = resp) \<and>
   ((\<exists>ln\<in>set (lines fi). MatchString reHandlerFunc ln) \<longrightarrow>
      checkMissingAbstraction resp fi =
        resp @ map (abstraction_finding fi)
                   (filter (\<lambda>il. MatchString reSQLInHandler (snd il)) (enumerate 0 (lines fi))) \<and>
      length (checkMissingAbstraction resp fi) =
        length resp + length (filter (MatchString reSQLInHandler) (lines fi))) \<and>
   (\<forall>i ln. ruleID (abstraction_finding fi (i, ln)) = ''ARCH-004'' \<and>
           filePath (abstraction_finding fi (i, ln)) = path fi \<and>
           startLine (abstraction_finding fi (i, ln)) = i + 1 \<and>
           endLine (abstraction_finding fi (i, ln)) = i + 1 \<and>
           message (abstraction_finding fi (i, ln)) =
             ''Missing abstraction layer: direct database call in handler: '' @
             strings_TrimSpace ln)"
proof -
  have "length (filter (\<lambda>il. MatchString reSQLInHandler (snd il)) (enumerate 0 (lines fi))) =
        length (filter (MatchString reSQLInHandler) (lines fi))"
    using filter_enumerate_snd [of "MatchString reSQLInHandler" 0 "lines fi"]
    by (metis length_map)
  then show ?thesis
    by (simp add: checkMissingAbstraction_eq list_ex_iff abstraction_finding_def)
qed

text \<open>
  A handler with two database calls gives two findings, at lines 2 and 3, with the trimmed
  lines in the messages; the same lines without the handler signature give none.
\<close>

theorem checkMissingAbstraction_findings_witness:
  "map (\<lambda>f. (startLine f, message f)) (checkMissingAbstraction [] users_go) =
     [(2, ''Missing abstraction layer: direct database call in handler: rows := db.Query(q)''),
      (3, ''Missing abstraction layer: direct database call in handler: db.Exec(del)'')] \<and>
   checkMissingAbstraction [] (users_go\<lparr>lines := tl (lines users_go)\<rparr>) = []"
proof -
  have h: "\<exists>ln\<in>set (lines users_go). MatchString reHandlerFunc ln"
    by code_simp
  have s: "filter (\<lambda>il. MatchString reSQLInHandler (snd il)) (enumerate 0 (lines users_go)) =
           [(1, [CHR 0x09] @ ''rows := db.Query(q)  ''), (2, [CHR 0x09] @ ''db.Exec(del)'')]"
    by code_simp
  have t1: "strings_TrimSpace ([CHR 0x09] @ ''rows := db.Query(q)  '') = ''rows := db.Query(q)''"
    by code_simp
  have t2: "strings_TrimSpace ([CHR 0x09] @ ''db.Exec(del)'') = ''db.Exec(del)''"
    by code_simp
  have n: "\<not> (\<exists>ln\<in>set (lines (users_go\<lparr>lines := tl (lines users_go)\<rparr>)).
               MatchString reHandlerFunc ln)"
    by code_simp
  show ?thesis
    using checkMissingAbstraction_findings [of users_go "[]"]
      checkMissingAbstraction_findings [of "users_go\<lparr>lines := tl (lines users_go)\<rparr>" "[]"]
      h s t1 t2 n
    by simp
qed

section \<open>The circular-dependency analyzer\<close>

text \<open>The order in which the entries of the import graph are visited does not matter.\<close>

lemma imported_back_cong:
  "set g = set g' \<Longrightarrow> imported_back r p g imp = imported_back r p g' imp"
  by (simp add: imported_back_def list_ex_iff)

lemma checkCircularDeps_order:
  "set g = set g' \<Longrightarrow> checkCircularDeps resp fi g root = checkCircularDeps resp fi g' root"
proof -
  assume "set g = set g'"
  then have "\<And>r p. imported_back r p g = imported_back r p g'"
    by (intro ext imported_back_cong)
  then show ?thesis
    by (simp add: checkCircularDeps_def)
qed

lemma find_first:
  "\<forall>x\<in>set xs. \<not> P x \<Longrightarrow> P y \<Longrightarrow> find P (xs @ y # ys) = Some y"
  by (induction xs) simp_all

text \<open>
  Claim C4.  For every file summary and every import graph the circular-dependency analyzer
  appends at most one finding.  It appends none when no import of the file is imported back;
  otherwise the finding is anchored at the line of the first import that is imported back,
  whatever imports follow it.
\<close>

theorem checkCircularDeps_once:
  "length (checkCircularDeps resp fi g root) \<le> length resp + 1 \<and>
   (\<not> (\<exists>imp\<in>set (importRefs fi).
         imported_back (relPath_of root (path fi))
           (filepath_Base (filepath_Dir (relPath_of root (path fi)))) g imp) \<longrightarrow>
      checkCircularDeps resp fi g root = resp) \<and>
   (\<forall>before imp after.
      importRefs fi = before @ imp # after \<and>
      (\<forall>x\<in>set before.
         \<not> imported_back (relPath_of root (path fi))
             (filepath_Base (filepath_Dir (relPath_of root (path fi)))) g x) \<and>
      imported_back (relPath_of root (path fi))
        (filepath_Base (filepath_Dir (relPath_of root (path fi)))) g imp \<longrightarrow>
      (\<exists>f. checkCircularDeps resp fi g root = resp @ [f] \<and> ruleID f = ''ARCH-001'' \<and>
           filePath f = path fi \<and> startLine f = line imp \<and> endLine f = line imp \<and>
           map_of (metadata f) ''imported_module'' = Some (module imp)))"
proof -
  let ?P = "imported_back (relPath_of root (path fi))
              (filepath_Base (filepath_Dir (relPath_of root (path fi)))) g"
  have len: "length (checkCircularDeps resp fi g root) \<le> length resp + 1"
    by (simp add: checkCircularDeps_def Let_def split: option.split)
  have none: "\<not> (\<exists>imp\<in>set (importRefs fi). ?P imp) \<longrightarrow> checkCircularDeps resp fi g root = resp"
  proof
    assume "\<not> (\<exists>imp\<in>set (importRefs fi). ?P imp)"
    then have "find ?P (importRefs fi) = None"
      by (simp add: find_None_iff)
    then show "checkCircularDeps resp fi g root = resp"
      by (simp add: checkCircularDeps_def Let_def)
  qed
  have some: "\<exists>f. checkCircularDeps resp fi g root = resp @ [f] \<and> ruleID f = ''ARCH-001'' \<and>
           filePath f = path fi \<and> startLine f = line imp \<and> endLine f = line imp \<and>
           map_of (metadata f) ''imported_module'' = Some (module imp)"
    if "importRefs fi = before @ imp # after" "\<forall>x\<in>set before. \<not> ?P x" "?P imp"
    for before imp after
  proof -
    have "find ?P (importRefs fi) = Some imp"
      using that by (simp add: find_first)
    then show ?thesis
      by (simp add: checkCircularDeps_def Let_def)
  qed
  show ?thesis
    using len none some by blast
qed


text \<open>
  A file in package \<open>a\<close> imports the packages \<open>b\<close> and \<open>c\<close>, both of which import \<open>a\<close> back:
  the one finding is for the import of \<open>b\<close> on line 4.  Without the other files in the graph
  there is no finding.
\<close>

theorem checkCircularDeps_once_witness:
  "(\<exists>f. checkCircularDeps [] x_go proj_graph ''/ws'' = [f] \<and> startLine f = 4 \<and>
        map_of (metadata f) ''imported_module'' = Some ''example.com/proj/b'') \<and>
   checkCircularDeps [] x_go (take 1 proj_graph) ''/ws'' = []"
proof -
  have r: "relPath_of ''/ws'' (path x_go) = ''a/x.go''"
    by code_simp
  have p: "filepath_Base (filepath_Dir ''a/x.go'') = ''a''"
    by code_simp
  have i: "importRefs x_go = [\<lparr>module = ''fmt'', line = 3\<rparr>] @
             \<lparr>module = ''example.com/proj/b'', line = 4\<rparr> # [\<lparr>module = ''example.com/proj/c'', line = 5\<rparr>]"
    by (simp add: x_go_def)
  have b0: "\<not> imported_back ''a/x.go'' ''a'' proj_graph \<lparr>module = ''fmt'', line = 3\<rparr>"
    by code_simp
  have b1: "imported_back ''a/x.go'' ''a'' proj_graph \<lparr>module = ''example.com/proj/b'', line = 4\<rparr>"
    by code_simp
  have b2: "imported_back ''a/x.go'' ''a'' proj_graph \<lparr>module = ''example.com/proj/c'', line = 5\<rparr>"
    by code_simp
  have n: "\<not> (\<exists>imp\<in>set (importRefs x_go). imported_back ''a/x.go'' ''a'' (take 1 proj_graph) imp)"
    by code_simp
  have "\<exists>f. checkCircularDeps [] x_go proj_graph ''/ws'' = [] @ [f] \<and> ruleID f = ''ARCH-001'' \<and>
           filePath f = path x_go \<and> startLine f = line \<lparr>module = ''example.com/proj/b'', line = 4\<rparr> \<and>
           endLine f = line \<lparr>module = ''example.com/proj/b'', line = 4\<rparr> \<and>
           map_of (metadata f) ''imported_module'' = Some (module \<lparr>module = ''example.com/proj/b'', line = 4\<rparr>)"
    using checkCircularDeps_once [of "[]" x_go proj_graph "''/ws''", THEN conjunct2, THEN conjunct2,
        THEN spec, THEN spec, THEN spec, THEN mp, of "[\<lparr>module = ''fmt'', line = 3\<rparr>]"
        "\<lparr>module = ''example.com/proj/b'', line = 4\<rparr>" "[\<lparr>module = ''example.com/proj/c'', line = 5\<rparr>]"]
      r p i b0 b1
    by simp
  moreover have "checkCircularDeps [] x_go (take 1 proj_graph) ''/ws'' = []"
    using checkCircularDeps_once [of "[]" x_go "take 1 proj_graph" "''/ws''"] r p n
    by simp
  ultimately show ?thesis
    by auto
qed


section \<open>The matcher\<close>

text \<open>
  A match never lengthens the input that is left, so the comparison in the concatenation
  case of \<open>run\<close> always holds.
\<close>

lemma rest_conv [simp]: "rest (b, s, c) = s"
  by (simp add: rest_def)

lemmas run_basic = run.simps(1) run.simps(2) run.simps(3) run.simps(4) run.simps(6) run.simps(8)

lemma run_rest_le: "st' \<in> set (run r st) \<Longrightarrow> length (rest st') \<le> length (rest st)"
proof (induction r st arbitrary: st' rule: run.induct)
  case (1 cs st)
  then show ?case by (cases "rest st") (auto simp: run_basic split: if_splits)
next
  case (2 cs st)
  then show ?case by (cases "rest st") (auto simp: run_basic split: if_splits)
next
  case (3 st)
  then show ?case by (simp add: run_basic)
next
  case (4 st)
  then show ?case by (simp add: run_basic split: if_splits)
next
  case (5 r1 r2 st)
  from "5.prems" obtain st1 where st1: "st1 \<in> set (run r1 st)"
    and le: "length (rest st1) \<le> length (rest st)" and st': "st' \<in> set (run r2 st1)"
    unfolding run.simps(5) by (auto split: if_splits)
  from "5.IH"(2) [OF st1 le st'] le show ?case by simp
next
  case (6 r1 r2 st)
  from "6.prems" have "st' \<in> set (run r1 st) \<or> st' \<in> set (run r2 st)"
    by (simp add: run.simps(6))
  then show ?case
  proof
    assume "st' \<in> set (run r1 st)"
    then show ?thesis by (rule "6.IH"(1))
  next
    assume "st' \<in> set (run r2 st)"
    then show ?thesis by (rule "6.IH"(2))
  qed
next
  case (7 r st)
  have eq: "run (Star r) st =
      concat (map (\<lambda>st1. if length (rest st1) < length (rest st) then run (Star r) st1 else [])
                  (run r st)) @ [st]"
    by (rule run.simps(7))
  from "7.prems" consider "st' = st"
    | st1 where "st1 \<in> set (run r st)" "length (rest st1) < length (rest st)"
        "st' \<in> set (run (Star r) st1)"
    unfolding eq by (auto split: if_splits)
  then show ?case
  proof cases
    case 1
    then show ?thesis by simp
  next
    case 2
    from "7.IH"(2) [OF 2(1) 2(2) 2(3)] 2(2) show ?thesis by simp
  qed
next
  case (8 n r st)
  from "8.prems" have "st' \<in> (\<lambda>st1. (fst st1, rest st1,
          (n, take (length (rest st) - length (rest st1)) (rest st)) # snd (snd st1))) ` set (run r st)"
    by (simp only: run.simps(8) set_map)
  then obtain st1 where st1: "st1 \<in> set (run r st)" and eq: "rest st' = rest st1"
    by (auto simp only: rest_conv)
  from "8.IH" [OF st1] show ?case unfolding eq .
qed

lemma run_Seq: "run (Seq r1 r2) st = concat (map (run r2) (run r1 st))"
proof -
  have "map (\<lambda>st'. if length (rest st') \<le> length (rest st) then run r2 st' else []) (run r1 st) =
        map (run r2) (run r1 st)"
    by (rule map_cong) (auto dest: run_rest_le)
  then show ?thesis by (simp only: run.simps(5))
qed

lemma run_star_then:
  assumes r: "\<And>b s c. run r (b, s, c) =
                (case s of [] \<Rightarrow> [] | x # xs \<Rightarrow> if P x then [(False, xs, c)] else [])"
    and h: "\<And>st. rest (h st) = rest st"
    and R: "\<And>st. rest st \<noteq> [] \<Longrightarrow> P (hd (rest st)) \<Longrightarrow> run R st = []"
    and ws: "\<forall>x\<in>set ws. P x"
    and t: "t = [] \<or> \<not> P (hd t)"
  shows "concat (map (\<lambda>st'. run R (h st')) (run (Star r) (b, ws @ t, c))) =
         run R (h (b \<and> ws = [], t, c))"
  using ws
proof (induction ws arbitrary: b)
  case Nil
  have "run r (b, t, c) = []"
    using t by (cases t) (auto simp: r)
  then have "run (Star r) (b, t, c) = [(b, t, c)]"
    by (subst run.simps(7)) simp
  then show ?case by simp
next
  case (Cons x ws)
  have "run r (b, (x # ws) @ t, c) = [(False, ws @ t, c)]"
    using Cons.prems by (simp add: r)
  then have "run (Star r) (b, (x # ws) @ t, c) =
        run (Star r) (False, ws @ t, c) @ [(b, (x # ws) @ t, c)]"
    by (subst run.simps(7)) simp
  moreover have "run R (h (b, (x # ws) @ t, c)) = []"
    using Cons.prems by (intro R) (simp_all add: h)
  ultimately show ?case
    using Cons.IH [of False] Cons.prems by simp
qed

text \<open>
  White space, a quote, a non-empty text without a quote, and a quote: \<open>reGoImport\<close>
  matches at the beginning of such a line, in exactly one way, and captures the text.
\<close>

lemma dquote_not_space: "dquote \<notin> set space_chars"
  by (simp add: dquote_def space_chars_def)

lemma run_reGoImport:
  assumes "quoted_line ln ws body after"
  shows "run reGoImport (True, ln, []) = [(False, after, [(1, body)])]"
proof -
  let ?N = "NSym [dquote]"
  let ?Q = "Seq (Sym [dquote]) Eps"
  from assms obtain y ys where body: "body = y # ys" and y: "y \<noteq> dquote"
    and ys: "\<forall>x\<in>set ys. x \<notin> set [dquote]"
    and ws: "\<forall>x\<in>set ws. x \<in> set space_chars"
    and ln: "ln = ws @ dquote # (y # ys) @ dquote # after"
    by (cases body) (auto simp: quoted_line_def)
  let ?G = "Grp 1 (Seq ?N (Star ?N))"
  let ?X = "Seq (Sym [dquote]) (Seq ?G ?Q)"
  have Q: "run ?Q st = []" if "rest st \<noteq> []" "hd (rest st) \<notin> set [dquote]" for st
    using that by (cases "rest st") (auto simp: run_Seq run_basic)
  let ?s0 = "(False, y # ys @ dquote # after, []) :: mstate"
  let ?cap = "\<lambda>st'::mstate. (fst st', rest st',
                (1::nat, take (length (rest ?s0) - length (rest st')) (rest ?s0)) # snd (snd st'))"
  have "run (Seq ?N (Star ?N)) ?s0 = run (Star ?N) (False, ys @ dquote # after, [])"
    using y by (simp add: run_Seq run_basic)
  then have "run ?G ?s0 = map ?cap (run (Star ?N) (False, ys @ dquote # after, []))"
    by (simp only: run.simps(8))
  then have "run (Seq ?G ?Q) ?s0 =
        concat (map (\<lambda>st'. run ?Q (?cap st'))
                    (run (Star ?N) (False, ys @ dquote # after, [])))"
    by (simp only: run_Seq [of ?G ?Q] map_map comp_def)
  also have "\<dots> = run ?Q (?cap (False \<and> ys = [], dquote # after, []))"
    by (rule run_star_then [where P = "\<lambda>x. x \<notin> set [dquote]"])
       (use ys Q in \<open>auto simp: run_basic split: list.splits\<close>)
  also have "\<dots> = [(False, after, [(1, y # ys)])]"
    by (simp add: run_Seq run_basic)
  finally have G: "run (Seq ?G ?Q) ?s0 = [(False, after, [(1, y # ys)])]" .
  have X: "run ?X st = []" if "rest st \<noteq> []" "hd (rest st) \<in> set space_chars" for st
    using that dquote_not_space by (cases "rest st") (auto simp: run_Seq [of "Sym [dquote]"] run_basic)
  have "run (Seq (Star cls_s) ?X) (True, ws @ dquote # (y # ys) @ dquote # after, []) =
        concat (map (\<lambda>st'. run ?X (id st'))
                    (run (Star (Sym space_chars)) (True, ws @ dquote # (y # ys) @ dquote # after, [])))"
    by (simp only: cls_s_def run_Seq [of "Star (Sym space_chars)"] id_apply)
  also have "\<dots> = run ?X (id (True \<and> ws = [], dquote # (y # ys) @ dquote # after, []))"
    by (rule run_star_then [where P = "\<lambda>x. x \<in> set space_chars"])
       (use ws X dquote_not_space in \<open>auto simp: run_basic split: list.splits\<close>)
  also have "\<dots> = run (Seq ?G ?Q) ?s0"
    by (simp add: run_Seq [of "Sym [dquote]"] run_basic)
  finally have "run (Seq (Star cls_s) ?X) (True, ln, []) = [(False, after, [(1, body)])]"
    using G ln body by simp
  then show ?thesis
    by (simp add: reGoImport_def seqs_def plus_def run_Seq [of Bol] run_basic)
qed

lemma FindStringSubmatch_reGoImport:
  assumes "quoted_line ln ws body after"
  shows "FindStringSubmatch reGoImport ln = [ws @ [dquote] @ body @ [dquote], body]"
proof -
  have ln: "ln = (ws @ [dquote] @ body @ [dquote]) @ after"
    using assms by (simp add: quoted_line_def)
  have "find_from reGoImport True ln =
        Some (take (length ln - length after) ln, [(1, body)])"
    by (simp add: find_from.simps [of reGoImport True ln] run_reGoImport [OF assms])
  moreover have "take (length ln - length after) ln = ws @ [dquote] @ body @ [dquote]"
    unfolding ln by simp
  moreover have "ngroups reGoImport = 1"
    by (simp add: reGoImport_def seqs_def plus_def cls_s_def)
  ultimately show ?thesis
    by (simp add: FindStringSubmatch_def)
qed

text \<open>
  The pattern is anchored, so it matches nowhere but at the beginning of the line; and it
  does not match a line that has two double quotes in a row after its white space.
\<close>

lemma find_from_Bol_False: "find_from (Seq Bol r) False s = None"
proof (induction s)
  case Nil
  show ?case by (simp add: find_from.simps [of _ False "[]"] run_Seq run_basic)
next
  case (Cons x s)
  then show ?case by (simp add: find_from.simps [of _ False "x # s"] run_Seq run_basic)
qed

lemma run_reGoImport_empty:
  assumes ws: "set ws \<subseteq> set space_chars"
  shows "run reGoImport (True, ws @ [dquote, dquote] @ after, []) = []"
proof -
  let ?N = "NSym [dquote]"
  let ?Q = "Seq (Sym [dquote]) Eps"
  let ?G = "Grp 1 (Seq ?N (Star ?N))"
  let ?X = "Seq (Sym [dquote]) (Seq ?G ?Q)"
  have X: "run ?X st = []" if "rest st \<noteq> []" "hd (rest st) \<in> set space_chars" for st
    using that dquote_not_space by (cases "rest st") (auto simp: run_Seq [of "Sym [dquote]"] run_basic)
  have "run (Seq (Star cls_s) ?X) (True, ws @ dquote # dquote # after, []) =
        concat (map (\<lambda>st'. run ?X (id st'))
                    (run (Star (Sym space_chars)) (True, ws @ dquote # dquote # after, [])))"
    by (simp only: cls_s_def run_Seq [of "Star (Sym space_chars)"] id_apply)
  also have "\<dots> = run ?X (id (True \<and> ws = [], dquote # dquote # after, []))"
    by (rule run_star_then [where P = "\<lambda>x. x \<in> set space_chars"])
       (use ws X dquote_not_space in \<open>auto simp: run_basic split: list.splits\<close>)
  also have "\<dots> = []"
    by (simp add: run_Seq run_basic)
  finally show ?thesis
    by (simp add: reGoImport_def seqs_def plus_def run_Seq [of Bol] run_basic)
qed

lemma FindStringSubmatch_reGoImport_empty:
  assumes "set ws \<subseteq> set space_chars"
  shows "FindStringSubmatch reGoImport (ws @ [dquote, dquote] @ after) = []"
proof -
  have B: "find_from reGoImport False s = None" for s
    by (simp add: reGoImport_def seqs_def find_from_Bol_False)
  have "find_from reGoImport True (ws @ [dquote, dquote] @ after) = None"
    using run_reGoImport_empty [OF assms, of after] B
    by (cases "ws @ [dquote, dquote] @ after")
       (simp_all add: find_from.simps [of reGoImport True])
  then show ?thesis
    by (simp add: FindStringSubmatch_def)
qed


section \<open>The file parser: line counts and imports\<close>

lemma parse_line_fields:
  "snd (parse_line e acc ln) = snd acc + 1"
  "lines (fst (parse_line e acc ln)) = lines (fst acc) @ [ln]"
  "path (fst (parse_line e acc ln)) = path (fst acc)"
  "ext (fst (parse_line e acc ln)) = ext (fst acc)"
  by (simp_all add: parse_line_def Let_def add_import_def add_export_def)

lemma parse_line_imports:
  "\<exists>new. importRefs (fst (parse_line e acc ln)) = importRefs (fst acc) @ new \<and>
         (\<forall>imp\<in>set new. line imp = snd acc + 1)"
  by (simp add: parse_line_def Let_def add_import_def add_export_def)

lemma foldl_parse_line_fields:
  "snd (foldl (parse_line e) acc ls) = snd acc + length ls"
  "lines (fst (foldl (parse_line e) acc ls)) = lines (fst acc) @ ls"
  "path (fst (foldl (parse_line e) acc ls)) = path (fst acc)"
  "ext (fst (foldl (parse_line e) acc ls)) = ext (fst acc)"
  by (induction ls arbitrary: acc) (simp_all add: parse_line_fields)

lemma foldl_parse_line_imports:
  "\<exists>new. importRefs (fst (foldl (parse_line e) acc ls)) = importRefs (fst acc) @ new \<and>
         (\<forall>imp\<in>set new. snd acc < line imp \<and> line imp \<le> snd acc + length ls)"
proof (induction ls arbitrary: acc)
  case Nil
  show ?case by simp
next
  case (Cons ln ls)
  from parse_line_imports [of e acc ln] obtain new1
    where n1: "importRefs (fst (parse_line e acc ln)) = importRefs (fst acc) @ new1"
      and l1: "\<forall>imp\<in>set new1. line imp = snd acc + 1"
    by blast
  from Cons.IH [of "parse_line e acc ln"] obtain new2
    where n2: "importRefs (fst (foldl (parse_line e) (parse_line e acc ln) ls)) =
               importRefs (fst (parse_line e acc ln)) @ new2"
      and l2: "\<forall>imp\<in>set new2. snd (parse_line e acc ln) < line imp \<and>
                 line imp \<le> snd (parse_line e acc ln) + length ls"
    by blast
  have "importRefs (fst (foldl (parse_line e) acc (ln # ls))) = importRefs (fst acc) @ (new1 @ new2)"
    using n1 n2 by simp
  moreover have "\<forall>imp\<in>set (new1 @ new2). snd acc < line imp \<and> line imp \<le> snd acc + length (ln # ls)"
    using l1 l2 by (auto simp: parse_line_fields)
  ultimately show ?case by blast
qed

lemma parse_lines_fields:
  "lineCount (parse_lines p e ls) = length ls"
  "lines (parse_lines p e ls) = ls"
  "path (parse_lines p e ls) = p"
  "ext (parse_lines p e ls) = e"
  by (simp_all add: parse_lines_def split_beta foldl_parse_line_fields)

lemma parse_lines_imports:
  "\<forall>imp\<in>set (importRefs (parse_lines p e ls)). 1 \<le> line imp \<and> line imp \<le> length ls"
  using foldl_parse_line_imports
    [of e "(\<lparr>path = p, ext = e, lines = [], importRefs = [], exports = 0, lineCount = 0\<rparr>, 0)" ls]
  by (auto simp: parse_lines_def split_beta)

text \<open>
  Claim C8.  For every summary that the parser returns, with or without an error, the line
  count equals the number of lines, and the line of every import lies between 1 and the line
  count.
\<close>

theorem parseFile_invariants:
  "lineCount (fst (parseFile p e rd)) = length (lines (fst (parseFile p e rd))) \<and>
   (\<forall>imp\<in>set (importRefs (fst (parseFile p e rd))).
      1 \<le> line imp \<and> line imp \<le> lineCount (fst (parseFile p e rd)))"
  using parse_lines_imports
  by (cases rd) (simp_all add: parseFile_def parse_lines_fields split_beta)

text \<open>The import block of a Go file: the quoted line 2 is recorded with line 2 of 3.\<close>

theorem parseFile_invariants_witness:
  "\<lparr>module = ''fmt'', line = 2\<rparr> \<in> set (importRefs (fst (parseFile ''/ws/a.go'' ''.go'' (Contents fmt_go)))) \<and>
   lineCount (fst (parseFile ''/ws/a.go'' ''.go'' (Contents fmt_go))) =
     length (lines (fst (parseFile ''/ws/a.go'' ''.go'' (Contents fmt_go)))) \<and>
   2 \<le> lineCount (fst (parseFile ''/ws/a.go'' ''.go'' (Contents fmt_go)))"
proof -
  have m: "\<lparr>module = ''fmt'', line = 2\<rparr> \<in>
           set (importRefs (fst (parseFile ''/ws/a.go'' ''.go'' (Contents fmt_go))))"
    by code_simp
  from parseFile_invariants [of "''/ws/a.go''" "''.go''" "Contents fmt_go"] m
  show ?thesis by fastforce
qed

lemma parse_line_go_quoted:
  assumes "quoted_line ln ws body after"
  shows "importRefs (fst (parse_line ''.go'' acc ln)) =
         importRefs (fst acc) @ [\<lparr>module = body, line = snd acc + 1\<rparr>]"
  by (simp add: parse_line_def Let_def add_import_def add_export_def
      FindStringSubmatch_reGoImport [OF assms])

lemma foldl_parse_go_quoted:
  assumes "i < length ls" and "quoted_line (ls ! i) ws body after"
  shows "\<lparr>module = body, line = snd acc + i + 1\<rparr> \<in>
         set (importRefs (fst (foldl (parse_line ''.go'') acc ls)))"
  using assms
proof (induction ls arbitrary: acc i)
  case Nil
  then show ?case by simp
next
  case (Cons ln ls)
  show ?case
  proof (cases i)
    case 0
    with Cons.prems have q: "quoted_line ln ws body after" by simp
    from foldl_parse_line_imports [of "''.go''" "parse_line ''.go'' acc ln" ls]
    show ?thesis
      using 0 by (auto simp: parse_line_go_quoted [OF q])
  next
    case (Suc j)
    with Cons.prems have "j < length ls" "quoted_line (ls ! j) ws body after" by simp_all
    from Cons.IH [OF this, of "parse_line ''.go'' acc ln"] show ?thesis
      using Suc by (simp add: parse_line_fields)
  qed
qed

lemma parse_line_go_empty:
  assumes "set ws \<subseteq> set space_chars"
  shows "importRefs (fst (parse_line ''.go'' acc (ws @ [dquote, dquote] @ after))) =
         importRefs (fst acc)"
  using FindStringSubmatch_reGoImport_empty [OF assms, of after]
  by (simp add: parse_line_def Let_def add_import_def add_export_def)

lemma foldl_parse_go_empty:
  assumes "i < length ls" and "set ws \<subseteq> set space_chars"
    and "ls ! i = ws @ [dquote, dquote] @ after"
  shows "\<exists>new. importRefs (fst (foldl (parse_line ''.go'') acc ls)) = importRefs (fst acc) @ new \<and>
           (\<forall>imp\<in>set new. line imp \<noteq> snd acc + i + 1)"
  using assms(1,3)
proof (induction ls arbitrary: acc i)
  case Nil
  then show ?case by simp
next
  case (Cons ln ls)
  show ?case
  proof (cases i)
    case 0
    with Cons.prems have ln: "ln = ws @ [dquote, dquote] @ after" by simp
    from foldl_parse_line_imports [of "''.go''" "parse_line ''.go'' acc ln" ls] obtain new
      where n: "importRefs (fst (foldl (parse_line ''.go'') (parse_line ''.go'' acc ln) ls)) =
                importRefs (fst (parse_line ''.go'' acc ln)) @ new"
        and l: "\<forall>imp\<in>set new. snd (parse_line ''.go'' acc ln) < line imp"
      by blast
    have "importRefs (fst (foldl (parse_line ''.go'') acc (ln # ls))) = importRefs (fst acc) @ new"
      using n parse_line_go_empty [OF assms(2), of acc after] by (simp add: ln)
    moreover have "\<forall>imp\<in>set new. line imp \<noteq> snd acc + i + 1"
      using l 0 by (auto simp: parse_line_fields)
    ultimately show ?thesis by blast
  next
    case (Suc j)
    with Cons.prems have j: "j < length ls" "ls ! j = ws @ [dquote, dquote] @ after" by simp_all
    from Cons.IH [OF this, of "parse_line ''.go'' acc ln"] obtain new2
      where n2: "importRefs (fst (foldl (parse_line ''.go'') (parse_line ''.go'' acc ln) ls)) =
                 importRefs (fst (parse_line ''.go'' acc ln)) @ new2"
        and l2: "\<forall>imp\<in>set new2. line imp \<noteq> snd (parse_line ''.go'' acc ln) + j + 1"
      by blast
    from parse_line_imports [of "''.go''" acc ln] obtain new1
      where n1: "importRefs (fst (parse_line ''.go'' acc ln)) = importRefs (fst acc) @ new1"
        and l1: "\<forall>imp\<in>set new1. line imp = snd acc + 1"
      by blast
    have "importRefs (fst (foldl (parse_line ''.go'') acc (ln # ls))) =
          importRefs (fst acc) @ (new1 @ new2)"
      using n1 n2 by simp
    moreover have "\<forall>imp\<in>set (new1 @ new2). line imp \<noteq> snd acc + i + 1"
      using l1 l2 Suc by (auto simp: parse_line_fields)
    ultimately show ?thesis by blast
  qed
qed

text \<open>
  Claim C10, amended.  For every \<^verbatim>\<open>.go\<close> file the parser records an import for every line
  whose first character after white space begins a double-quoted string with non-empty
  content: the module is the content up to the next double quote, the line is the number of
  the line.  Nothing asks that the line be part of an import declaration.  A line that has
  an empty string literal after its white space records no import.
\<close>

theorem go_quoted_line_recorded:
  assumes "i < length (lines (fst (parseFile p ''.go'' rd)))"
  shows "(quoted_line (lines (fst (parseFile p ''.go'' rd)) ! i) ws body after \<longrightarrow>
            \<lparr>module = body, line = i + 1\<rparr> \<in> set (importRefs (fst (parseFile p ''.go'' rd)))) \<and>
         (set ws \<subseteq> set space_chars \<and>
          lines (fst (parseFile p ''.go'' rd)) ! i = ws @ [dquote, dquote] @ after \<longrightarrow>
            (\<forall>imp\<in>set (importRefs (fst (parseFile p ''.go'' rd))). line imp \<noteq> i + 1))"
proof -
  let ?init = "(\<lparr>path = p, ext = ''.go'', lines = [], importRefs = [], exports = 0, lineCount = 0\<rparr>, 0::nat)"
  have 1: "\<lparr>module = body, line = i + 1\<rparr> \<in> set (importRefs (parse_lines p ''.go'' ls))"
    if "i < length ls" "quoted_line (ls ! i) ws body after" for ls
    using foldl_parse_go_quoted [OF that, of ?init]
    by (simp add: parse_lines_def split_beta)
  have 2: "\<forall>imp\<in>set (importRefs (parse_lines p ''.go'' ls)). line imp \<noteq> i + 1"
    if "i < length ls" "set ws \<subseteq> set space_chars" "ls ! i = ws @ [dquote, dquote] @ after" for ls
    using foldl_parse_go_empty [OF that, of ?init]
    by (auto simp: parse_lines_def split_beta)
  show ?thesis
    using assms 1 2 by (cases rd) (simp_all add: parseFile_def parse_lines_fields split_beta)
qed


text \<open>
  A string literal on its own line inside a slice literal is recorded as an import; an empty
  one is not.
\<close>

theorem go_quoted_line_recorded_witness:
  "lines (fst (parseFile ''/ws/names.go'' ''.go'' (Contents names_go))) ! 1 =
     [CHR 0x09] @ [dquote] @ ''alpha'' @ [dquote] @ '','' \<and>
   \<lparr>module = ''alpha'', line = 2\<rparr> \<in>
     set (importRefs (fst (parseFile ''/ws/names.go'' ''.go'' (Contents names_go)))) \<and>
   lines (fst (parseFile ''/ws/names.go'' ''.go'' (Contents blank_go))) ! 1 =
     [CHR 0x09] @ [dquote, dquote] @ '','' \<and>
   2 \<notin> line ` set (importRefs (fst (parseFile ''/ws/names.go'' ''.go'' (Contents blank_go))))"
proof -
  have l: "lines (fst (parseFile ''/ws/names.go'' ''.go'' (Contents names_go))) =
           [''var names = []string{'', [CHR 0x09] @ [dquote] @ ''alpha'' @ [dquote] @ '','', ''}'']"
    by code_simp
  have q: "quoted_line ([CHR 0x09] @ [dquote] @ ''alpha'' @ [dquote] @ '','') [CHR 0x09] ''alpha'' '',''"
    by code_simp
  have b: "lines (fst (parseFile ''/ws/names.go'' ''.go'' (Contents blank_go))) =
           [''var names = []string{'', [CHR 0x09] @ [dquote, dquote] @ '','', ''}'']"
    by code_simp
  have s: "set [CHR 0x09] \<subseteq> set space_chars"
    by code_simp
  from go_quoted_line_recorded [of 1 "''/ws/names.go''" "Contents names_go" "[CHR 0x09]" "''alpha''" "'',''"]
    l q
  have 1: "\<lparr>module = ''alpha'', line = 2\<rparr> \<in>
     set (importRefs (fst (parseFile ''/ws/names.go'' ''.go'' (Contents names_go))))"
    by (simp add: numeral_2_eq_2)
  from go_quoted_line_recorded [of 1 "''/ws/names.go''" "Contents blank_go" "[CHR 0x09]" "[]" "'',''"]
    b s
  have 2: "2 \<notin> line ` set (importRefs (fst (parseFile ''/ws/names.go'' ''.go'' (Contents blank_go))))"
    by (auto simp: numeral_2_eq_2)
  from l b 1 2 show ?thesis by simp
qed

text \<open>
  A line that begins with an empty string literal is not recorded: the pattern asks for at
  least one character between the quotes.
\<close>

theorem go_empty_literal_not_recorded:
  "lines (fst (parseFile ''/ws/names.go'' ''.go'' (Contents blank_go))) ! 1 =
     [CHR 0x09] @ [dquote] @ [] @ [dquote] @ '','' \<and>
   importRefs (fst (parseFile ''/ws/names.go'' ''.go'' (Contents blank_go))) = []"
  by code_simp


section \<open>The walk\<close>

text \<open>
  What one call of the callback does to the state and what it returns; an induction rule
  that follows the walk; the walk of a directory without the callback.
\<close>

lemma parseFile_path: "\<not> snd (parseFile p e rd) \<Longrightarrow> path (fst (parseFile p e rd)) = p"
  by (cases rd) (simp_all add: parseFile_def parse_lines_fields split_beta)

lemma scan_callback_WalkErr [simp]: "scan_callback c root p WalkErr st = (None, st)"
  by (simp add: scan_callback_def)

lemma scan_callback_files:
  "\<exists>new. files (snd (scan_callback c root p call st)) = files st @ new \<and>
         (\<forall>fi\<in>set new. path fi = p \<and> (\<exists>n rd. call = Entry (FileNode n rd)))"
proof (cases call)
  case WalkErr
  then show ?thesis by simp
next
  case (Entry d)
  show ?thesis
  proof (cases d)
    case (FileNode n rd)
    show ?thesis
      using parseFile_path [of p "filepath_Ext p" rd]
      by (auto simp: scan_callback_def Entry FileNode Let_def
          split: option.splits prod.splits bool.splits)
  next
    case (DirNode n re ds)
    then show ?thesis
      by (simp add: scan_callback_def Entry Let_def split: option.splits)
  qed
qed

lemma scan_callback_result:
  "fst (scan_callback c root p call st) = None \<or>
   (fst (scan_callback c root p call st) = Some SkipDir \<and>
      (\<exists>n re ds. call = Entry (DirNode n re ds) \<and> n \<in> set skippedDirs) \<and>
      files (snd (scan_callback c root p call st)) = files st) \<or>
   (\<exists>k e. c = Some (k, e) \<and> fst (scan_callback c root p call st) = Some (CtxErr e) \<and>
      files (snd (scan_callback c root p call st)) = files st)"
proof (cases call)
  case WalkErr
  then show ?thesis by simp
next
  case (Entry d)
  show ?thesis
    by (cases d)
       (auto simp: scan_callback_def Entry Let_def ctx_Err_def
          split: option.splits prod.splits bool.splits if_splits)
qed


lemma walk_induct [case_names File Dir Nil Cons]:
  fixes P :: "string \<Rightarrow> fsnode \<Rightarrow> bool" and Q :: "string \<Rightarrow> fsnode list \<Rightarrow> bool"
  assumes "\<And>p n rd. P p (FileNode n rd)"
    and "\<And>p n re ds. Q p ds \<Longrightarrow> P p (DirNode n re ds)"
    and "\<And>p. Q p []"
    and "\<And>p d ds. P (filepath_Join p (node_name d)) d \<Longrightarrow> Q p ds \<Longrightarrow> Q p (d # ds)"
  shows "P p d" and "Q p ds"
proof -
  have "P p d" for p d
    using tree_files_entries_files.induct(1)
      [of "\<lambda>p dirs d. P p d" "\<lambda>p dirs ds. Q p ds" p "[]" d] assms by blast
  moreover have "Q p ds" for p ds
    using tree_files_entries_files.induct(2)
      [of "\<lambda>p dirs d. P p d" "\<lambda>p dirs ds. Q p ds" p "[]" ds] assms by blast
  ultimately show "P p d" and "Q p ds" by blast+
qed

lemma walkDir_FileNode:
  "walkDir c root p (FileNode n rd) st = scan_callback c root p (Entry (FileNode n rd)) st"
  by simp

lemma walkDir_DirNode:
  "walkDir c root p (DirNode n re ds) st =
     (case ctx_Err c (polls st) of
        Some e \<Rightarrow> (Some (CtxErr e), st\<lparr>polls := polls st + 1\<rparr>)
      | None \<Rightarrow>
          if n \<in> set skippedDirs then (None, st\<lparr>polls := polls st + 1\<rparr>)
          else walkEntries c root p ds (st\<lparr>polls := polls st + 1\<rparr>))"
  by (simp add: scan_callback_def Let_def split: option.splits)

declare walkDir.simps(2) [simp del]

lemma scan_callback_dir_snd:
  "snd (scan_callback c root p (Entry (DirNode n re ds)) st) = st\<lparr>polls := polls st + 1\<rparr>"
  by (simp add: scan_callback_def Let_def split: option.splits)

lemma walk_result:
  "fst (walkDir c root p d st) = None \<or>
   (\<exists>k e. c = Some (k, e) \<and> fst (walkDir c root p d st) = Some (CtxErr e))"
  "fst (walkEntries c root p ds st) = None \<or>
   (\<exists>k e. c = Some (k, e) \<and> fst (walkEntries c root p ds st) = Some (CtxErr e))"
proof (induction p d and p ds arbitrary: st and st rule: walk_induct)
  case (File p n rd)
  show ?case
    using scan_callback_result [of c root p "Entry (FileNode n rd)" st] by auto
next
  case (Dir p n re ds)
  show ?case
    using Dir.IH [of "st\<lparr>polls := polls st + 1\<rparr>"]
    by (auto simp: walkDir_DirNode ctx_Err_def split: option.splits)
next
  case (Nil p)
  show ?case by simp
next
  case (Cons p d ds)
  obtain r st1 where w: "walkDir c root (filepath_Join p (node_name d)) d st = (r, st1)"
    by (cases "walkDir c root (filepath_Join p (node_name d)) d st")
  from Cons.IH(1) [of st] w have "r = None \<or> (\<exists>k e. c = Some (k, e) \<and> r = Some (CtxErr e))"
    by simp
  then show ?case
    using Cons.IH(2) [of st1] w by auto
qed

lemma walk_invariant:
  assumes step: "\<And>p call st. I st \<Longrightarrow> I (snd (scan_callback c root p call st))"
  shows "I st \<Longrightarrow> I (snd (walkDir c root p d st))"
    and "I st \<Longrightarrow> I (snd (walkEntries c root p ds st))"
proof (induction p d and p ds arbitrary: st and st rule: walk_induct)
  case (File p n rd)
  then show ?case using step by simp
next
  case (Dir p n re ds)
  let ?st1 = "st\<lparr>polls := polls st + 1\<rparr>"
  have I1: "I ?st1"
    using step [OF Dir.prems, of p "Entry (DirNode n re ds)"] by (simp add: scan_callback_dir_snd)
  have "snd (walkDir c root p (DirNode n re ds) st) = ?st1 \<or>
        snd (walkDir c root p (DirNode n re ds) st) = snd (walkEntries c root p ds ?st1)"
    by (simp add: walkDir_DirNode split: option.splits)
  then show ?case
    using I1 Dir.IH [OF I1] by auto
next
  case (Nil p)
  then show ?case by simp
next
  case (Cons p d ds)
  let ?w = "walkDir c root (filepath_Join p (node_name d)) d st"
  have I1: "I (snd ?w)" using Cons.IH(1) Cons.prems by simp
  have "snd (walkEntries c root p (d # ds) st) = snd ?w \<or>
        snd (walkEntries c root p (d # ds) st) = snd (walkEntries c root p ds (snd ?w))"
    by (cases ?w) (auto split: option.splits walk_error.splits)
  then show ?case
    using I1 Cons.IH(2) [OF I1] by auto
qed

lemma WalkDir_invariant:
  assumes step: "\<And>p call st. I st \<Longrightarrow> I (snd (scan_callback c root p call st))"
    and "I st"
  shows "I (snd (WalkDir c root lstat st))"
proof (cases lstat)
  case None
  then show ?thesis using assms by (simp add: WalkDir_def)
next
  case (Some d)
  have "snd (WalkDir c root (Some d) st) = snd (walkDir c root root d st)"
    by (cases "walkDir c root root d st") (auto simp: WalkDir_def split: option.splits walk_error.splits)
  then show ?thesis
    using walk_invariant(1) [of I c root st root d] assms Some by simp
qed


section \<open>The import graph after the walk\<close>

lemma graph_append_keys: "fst ` set (graph_append g k v) = insert k (fst ` set g)"
proof (induction g)
  case Nil
  show ?case by simp
next
  case (Cons kv g)
  obtain k' vs where kv: "kv = (k', vs)" by (cases kv)
  show ?case
    unfolding kv using Cons.IH by (cases "k' = k") (simp_all add: insert_commute)
qed

lemma graph_append_distinct:
  "distinct (map fst g) \<Longrightarrow> distinct (map fst (graph_append g k v))"
proof (induction g)
  case Nil
  show ?case by simp
next
  case (Cons kv g)
  obtain k' vs where kv: "kv = (k', vs)" by (cases kv)
  from Cons show ?case
    using graph_append_keys [of g k v] by (auto simp: kv)
qed

lemma graph_fold_keys:
  "fst ` set (foldl (\<lambda>g imp. graph_append g k (module imp)) g imps) =
     (if imps = [] then fst ` set g else insert k (fst ` set g))"
  by (induction imps arbitrary: g) (auto simp: graph_append_keys)

lemma graph_fold_distinct:
  "distinct (map fst g) \<Longrightarrow>
   distinct (map fst (foldl (\<lambda>g imp. graph_append g k (module imp)) g imps))"
  by (induction imps arbitrary: g) (simp_all add: graph_append_distinct)

lemma scan_callback_state:
  "(files (snd (scan_callback c root p call st)) = files st \<and>
    importGraph (snd (scan_callback c root p call st)) = importGraph st) \<or>
   (\<exists>info. files (snd (scan_callback c root p call st)) = files st @ [info] \<and> path info = p \<and>
      importGraph (snd (scan_callback c root p call st)) =
        foldl (\<lambda>g imp. graph_append g (relPath_of root p) (module imp))
          (importGraph st) (importRefs info))"
proof (cases call)
  case WalkErr
  then show ?thesis by simp
next
  case (Entry d)
  show ?thesis
  proof (cases d)
    case (FileNode n rd)
    show ?thesis
      using parseFile_path [of p "filepath_Ext p" rd]
      by (auto simp: scan_callback_def Entry FileNode Let_def
          split: option.splits prod.splits bool.splits)
  next
    case (DirNode n re ds)
    then show ?thesis
      by (simp add: scan_callback_def Entry Let_def split: option.splits)
  qed
qed

lemma graph_keys_snoc:
  "graph_keys root (fis @ [fi]) =
     (if importRefs fi = [] then graph_keys root fis
      else insert (relPath_of root (path fi)) (graph_keys root fis))"
  by (auto simp: graph_keys_def)

lemma scan_callback_graph:
  assumes "fst ` set (importGraph st) = graph_keys root (files st) \<and>
           distinct (map fst (importGraph st))"
  shows "fst ` set (importGraph (snd (scan_callback c root p call st))) =
           graph_keys root (files (snd (scan_callback c root p call st))) \<and>
         distinct (map fst (importGraph (snd (scan_callback c root p call st))))"
proof -
  let ?st' = "snd (scan_callback c root p call st)"
  from scan_callback_state [of c root p call st]
  consider "files ?st' = files st" "importGraph ?st' = importGraph st"
    | info where "files ?st' = files st @ [info]" "path info = p"
        "importGraph ?st' = foldl (\<lambda>g imp. graph_append g (relPath_of root p) (module imp))
          (importGraph st) (importRefs info)"
    by blast
  then show ?thesis
  proof cases
    case 1
    with assms show ?thesis by simp
  next
    case 2
    with assms show ?thesis
      by (simp add: graph_keys_snoc graph_fold_keys graph_fold_distinct)
  qed
qed

text \<open>
  Claim C5, amended.  After the walk the import graph has an entry, keyed by the relative
  path, for exactly the parsed files that have at least one import; its keys are distinct.
  A parsed file has no entry when neither it nor another parsed file with the same relative
  path has an import.
\<close>

theorem importGraph_entries:
  "fst ` set (importGraph (snd (WalkDir c root lstat walk_init))) =
     graph_keys root (files (snd (WalkDir c root lstat walk_init))) \<and>
   distinct (map fst (importGraph (snd (WalkDir c root lstat walk_init)))) \<and>
   (\<forall>fi\<in>set (files (snd (WalkDir c root lstat walk_init))).
      (\<forall>fj\<in>set (files (snd (WalkDir c root lstat walk_init))).
         relPath_of root (path fj) = relPath_of root (path fi) \<longrightarrow> importRefs fj = []) \<longrightarrow>
      map_of (importGraph (snd (WalkDir c root lstat walk_init))) (relPath_of root (path fi)) = None)"
proof -
  let ?st = "snd (WalkDir c root lstat walk_init)"
  have I: "fst ` set (importGraph ?st) = graph_keys root (files ?st) \<and>
           distinct (map fst (importGraph ?st))"
    by (rule WalkDir_invariant
        [where I = "\<lambda>st. fst ` set (importGraph st) = graph_keys root (files st) \<and>
                          distinct (map fst (importGraph st))"])
       (simp_all add: scan_callback_graph walk_init_def graph_keys_def)
  have "map_of (importGraph ?st) (relPath_of root (path fi)) = None"
    if "\<forall>fj\<in>set (files ?st). relPath_of root (path fj) = relPath_of root (path fi) \<longrightarrow>
          importRefs fj = []" for fi
  proof -
    from that have "relPath_of root (path fi) \<notin> graph_keys root (files ?st)"
      by (auto simp: graph_keys_def)
    with I show ?thesis by (simp add: map_of_eq_None_iff)
  qed
  with I show ?thesis by blast
qed


text \<open>
  In the sample workspace the graph has the two entries of the files with an import, and none
  for \<open>c/z.go\<close>.
\<close>

theorem importGraph_entries_witness:
  "fst ` set (importGraph (snd (WalkDir None ''/ws'' (Some sample_tree) walk_init))) =
     {''a/x.go'', ''b/y.go''} \<and>
   map_of (importGraph (snd (WalkDir None ''/ws'' (Some sample_tree) walk_init))) ''c/z.go'' = None"
proof -
  let ?st = "snd (WalkDir None ''/ws'' (Some sample_tree) walk_init)"
  have k: "graph_keys ''/ws'' (files ?st) = {''a/x.go'', ''b/y.go''}"
    by code_simp
  have "list_ex (\<lambda>fi. relPath_of ''/ws'' (path fi) = ''c/z.go'' \<and>
           list_all (\<lambda>fj. relPath_of ''/ws'' (path fj) = relPath_of ''/ws'' (path fi) \<longrightarrow>
                          importRefs fj = []) (files ?st)) (files ?st)"
    by code_simp
  then obtain fi where fi: "fi \<in> set (files ?st)" "relPath_of ''/ws'' (path fi) = ''c/z.go''"
    "\<forall>fj\<in>set (files ?st). relPath_of ''/ws'' (path fj) = relPath_of ''/ws'' (path fi) \<longrightarrow>
       importRefs fj = []"
    by (auto simp: list_ex_iff list_all_iff)
  from importGraph_entries [of None "''/ws''" "Some sample_tree"]
  have "\<forall>fi\<in>set (files ?st).
      (\<forall>fj\<in>set (files ?st).
         relPath_of ''/ws'' (path fj) = relPath_of ''/ws'' (path fi) \<longrightarrow> importRefs fj = []) \<longrightarrow>
      map_of (importGraph ?st) (relPath_of ''/ws'' (path fi)) = None"
    by blast
  with fi have "map_of (importGraph ?st) ''c/z.go'' = None"
    by metis
  with importGraph_entries [of None "''/ws''" "Some sample_tree"] k show ?thesis
    by simp
qed

text \<open>
  The file \<open>c/z.go\<close> of the sample workspace is parsed, has no import, and has no entry in
  the graph.
\<close>

theorem importGraph_no_entry_without_imports:
  "''/ws/c/z.go'' \<in> set (map path (files (snd (WalkDir None ''/ws'' (Some sample_tree) walk_init)))) \<and>
   map_of (importGraph (snd (WalkDir None ''/ws'' (Some sample_tree) walk_init)))
     (relPath_of ''/ws'' ''/ws/c/z.go'') = None"
  by code_simp

section \<open>Skipped directories\<close>

lemma walk_files_dirs:
  "set dirs \<inter> set skippedDirs = {} \<Longrightarrow>
   fi \<in> set (files (snd (walkDir c root p d st))) \<Longrightarrow>
   fi \<in> set (files st) \<or>
   (\<exists>ab. (path fi, ab) \<in> set (tree_files p dirs d) \<and> set ab \<inter> set skippedDirs = {})"
  "set dirs \<inter> set skippedDirs = {} \<Longrightarrow>
   fi \<in> set (files (snd (walkEntries c root p ds st))) \<Longrightarrow>
   fi \<in> set (files st) \<or>
   (\<exists>ab. (path fi, ab) \<in> set (entries_files p dirs ds) \<and> set ab \<inter> set skippedDirs = {})"
proof (induction p d and p ds arbitrary: st dirs and st dirs rule: walk_induct)
  case (File p n rd)
  from scan_callback_files [of c root p "Entry (FileNode n rd)" st] File.prems
  show ?case by auto
next
  case (Dir p n re ds)
  let ?st1 = "st\<lparr>polls := polls st + 1\<rparr>"
  show ?case
  proof (cases "ctx_Err c (polls st) = None \<and> n \<notin> set skippedDirs")
    case True
    then have w: "walkDir c root p (DirNode n re ds) st = walkEntries c root p ds ?st1"
      by (simp add: walkDir_DirNode)
    from True Dir.prems(1) have d: "set (dirs @ [n]) \<inter> set skippedDirs = {}"
      by auto
    from Dir.IH [OF d, of ?st1] Dir.prems(2) show ?thesis
      by (simp add: w)
  next
    case False
    then have "files (snd (walkDir c root p (DirNode n re ds) st)) = files st"
      by (auto simp: walkDir_DirNode split: option.splits)
    with Dir.prems(2) show ?thesis by simp
  qed
next
  case (Nil p)
  then show ?case by simp
next
  case (Cons p d ds)
  let ?w = "walkDir c root (filepath_Join p (node_name d)) d st"
  have "snd (walkEntries c root p (d # ds) st) = snd ?w \<or>
        snd (walkEntries c root p (d # ds) st) = snd (walkEntries c root p ds (snd ?w))"
    by (cases ?w) (auto split: option.splits walk_error.splits)
  then show ?case
  proof
    assume "snd (walkEntries c root p (d # ds) st) = snd ?w"
    with Cons.prems have "fi \<in> set (files (snd ?w))" by simp
    from Cons.IH(1) [OF Cons.prems(1) this] show ?thesis by auto
  next
    assume "snd (walkEntries c root p (d # ds) st) = snd (walkEntries c root p ds (snd ?w))"
    with Cons.prems have "fi \<in> set (files (snd (walkEntries c root p ds (snd ?w))))" by simp
    from Cons.IH(2) [OF Cons.prems(1) this]
    show ?thesis
    proof
      assume "fi \<in> set (files (snd ?w))"
      from Cons.IH(1) [OF Cons.prems(1) this] show ?thesis by auto
    next
      assume "\<exists>ab. (path fi, ab) \<in> set (entries_files p dirs ds) \<and> set ab \<inter> set skippedDirs = {}"
      then show ?thesis by auto
    qed
  qed
qed


lemma check_paths:
  "f \<in> set (checkCircularDeps resp fi g root) \<Longrightarrow> f \<in> set resp \<or> filePath f = path fi"
  "f \<in> set (checkGodObject resp fi) \<Longrightarrow> f \<in> set resp \<or> filePath f = path fi"
  "f \<in> set (checkSecurityMixing resp fi) \<Longrightarrow> f \<in> set resp \<or> filePath f = path fi"
  "f \<in> set (checkMissingAbstraction resp fi) \<Longrightarrow> f \<in> set resp \<or> filePath f = path fi"
proof -
  show "f \<in> set (checkCircularDeps resp fi g root) \<Longrightarrow> f \<in> set resp \<or> filePath f = path fi"
    by (auto simp: checkCircularDeps_def Let_def split: option.splits)
  show "f \<in> set (checkGodObject resp fi) \<Longrightarrow> f \<in> set resp \<or> filePath f = path fi"
    by (auto simp: checkGodObject_def split: if_splits)
  show "f \<in> set (checkSecurityMixing resp fi) \<Longrightarrow> f \<in> set resp \<or> filePath f = path fi"
    by (auto simp: checkSecurityMixing_def Let_def split: if_splits)
  show "f \<in> set (checkMissingAbstraction resp fi) \<Longrightarrow> f \<in> set resp \<or> filePath f = path fi"
    by (auto simp: checkMissingAbstraction_eq abstraction_finding_def split: if_splits)
qed

lemma analyze_file_paths:
  "f \<in> set (analyze_file root g resp fi) \<Longrightarrow> f \<in> set resp \<or> filePath f = path fi"
  unfolding analyze_file_def
  by (blast dest: check_paths)

lemma analyze_paths:
  "f \<in> set (foldl (analyze_file root g) resp fis) \<Longrightarrow>
   f \<in> set resp \<or> filePath f \<in> path ` set fis"
proof (induction fis arbitrary: resp)
  case Nil
  then show ?case by simp
next
  case (Cons fi fis)
  from Cons.IH [of "analyze_file root g resp fi"] Cons.prems
  show ?case by (auto dest: analyze_file_paths)
qed


lemma sample_req_root [simp]: "request_root (sample_req root) = root"
  by (simp add: sample_req_def request_root_def)

lemma scan_callback_ctx:
  "(fst (scan_callback c root p (Entry d) st) = Some (CtxErr e)) = (ctx_Err c (polls st) = Some e)"
  by (cases d)
     (auto simp: scan_callback_def Let_def split: option.splits prod.splits bool.splits)

lemma WalkDir_None: "fst (WalkDir None root lstat st) = None"
proof (cases lstat)
  case None
  then show ?thesis by (simp add: WalkDir_def)
next
  case (Some d)
  then show ?thesis
    using walk_result(1) [of None root root d st]
    by (cases "walkDir None root root d st") (auto simp: WalkDir_def)
qed

lemma WalkDir_Some_snd:
  "snd (WalkDir c root (Some d) st) = snd (walkDir c root root d st)"
  by (cases "walkDir c root root d st")
     (auto simp: WalkDir_def split: option.splits walk_error.splits)

lemma check_mono:
  "set resp \<subseteq> set (checkCircularDeps resp fi g root)"
  "set resp \<subseteq> set (checkGodObject resp fi)"
  "set resp \<subseteq> set (checkSecurityMixing resp fi)"
  "set resp \<subseteq> set (checkMissingAbstraction resp fi)"
proof -
  show "set resp \<subseteq> set (checkCircularDeps resp fi g root)"
    by (auto simp: checkCircularDeps_def Let_def split: option.splits)
  show "set resp \<subseteq> set (checkGodObject resp fi)"
    by (auto simp: checkGodObject_def)
  show "set resp \<subseteq> set (checkSecurityMixing resp fi)"
    by (auto simp: checkSecurityMixing_def Let_def)
  show "set resp \<subseteq> set (checkMissingAbstraction resp fi)"
    by (auto simp: checkMissingAbstraction_eq)
qed

lemma analyze_file_mono: "set (checkCircularDeps resp fi g root) \<subseteq> set (analyze_file root g resp fi)"
  unfolding analyze_file_def
  using check_mono(2) [of "checkCircularDeps resp fi g root" fi]
    check_mono(3) [of "checkGodObject (checkCircularDeps resp fi g root) fi" fi]
    check_mono(4) [of "checkSecurityMixing (checkGodObject (checkCircularDeps resp fi g root) fi) fi" fi]
  by blast

lemma analyze_mono: "set resp \<subseteq> set (foldl (analyze_file root g) resp fis)"
proof (induction fis arbitrary: resp)
  case Nil
  show ?case by simp
next
  case (Cons fi fis)
  have "set resp \<subseteq> set (analyze_file root g resp fi)"
    using check_mono(1) [of resp fi g root] analyze_file_mono [of resp fi g root] by blast
  with Cons.IH [of "analyze_file root g resp fi"] show ?case by auto
qed

lemma checkCircularDeps_append:
  "checkCircularDeps resp fi g root = resp @ checkCircularDeps [] fi g root"
  by (simp add: checkCircularDeps_def Let_def split: option.splits)

lemma analyze_contains:
  assumes "fi \<in> set fis" and "f \<in> set (checkCircularDeps [] fi g root)"
  shows "f \<in> set (foldl (analyze_file root g) resp fis)"
  using assms(1)
proof (induction fis arbitrary: resp)
  case Nil
  then show ?case by simp
next
  case (Cons a fis)
  show ?case
  proof (cases "fi = a")
    case True
    have "f \<in> set (checkCircularDeps resp a g root)"
      using assms(2) True checkCircularDeps_append [of resp a g root] by simp
    then have "f \<in> set (analyze_file root g resp a)"
      using analyze_file_mono by blast
    then show ?thesis
      using analyze_mono [of "analyze_file root g resp a" root g fis] by auto
  next
    case False
    with Cons.prems have "fi \<in> set fis" by simp
    from Cons.IH [OF this] show ?thesis by simp
  qed
qed

lemma handleScan_uncancelled:
  "request_root req \<noteq> [] \<Longrightarrow>
   handleScan None fs req =
     Inr (analyze (request_root req)
            (snd (WalkDir None (request_root req) (fs (request_root req)) walk_init)))"
  using WalkDir_None [of "request_root req" "fs (request_root req)" walk_init]
  by (cases "WalkDir None (request_root req) (fs (request_root req)) walk_init")
     (simp add: handleScan_def)

text \<open>
  Claim C9, amended.  Every finding of a scan is for a file of the walked tree that has, from
  the root down, only directories above it whose names are not in the skip set: a directory
  with such a name is not entered, at any depth, so no file below it is parsed or reported.
  The directories are those of the walk, the root being the first of them; the elements of
  the root path above the root are not looked at.
\<close>

theorem findings_outside_skipped:
  assumes "handleScan c fs req = Inr findings" and "f \<in> set findings"
  shows "\<exists>tree dirs. fs (request_root req) = Some tree \<and>
           (filePath f, dirs) \<in> set (tree_files (request_root req) [] tree) \<and>
           set dirs \<inter> set skippedDirs = {}"
proof -
  let ?root = "request_root req"
  let ?st = "snd (WalkDir c ?root (fs ?root) walk_init)"
  from assms have "findings = analyze ?root ?st" and "?root \<noteq> []"
    by (auto simp: handleScan_def Let_def split: if_splits prod.splits option.splits)
  with assms(2) have "filePath f \<in> path ` set (files ?st)"
    using analyze_paths [of f ?root "importGraph ?st" "[]" "files ?st"]
    by (simp add: analyze_def)
  then obtain fi where fi: "fi \<in> set (files ?st)" and p: "filePath f = path fi"
    by auto
  show ?thesis
  proof (cases "fs ?root")
    case None
    with fi show ?thesis by (simp add: WalkDir_def walk_init_def)
  next
    case (Some tree)
    from fi have "fi \<in> set (files (snd (walkDir c ?root ?root tree walk_init)))"
      by (simp add: Some WalkDir_Some_snd)
    from walk_files_dirs(1) [OF _ this, of "[]"]
    obtain dirs where "(path fi, dirs) \<in> set (tree_files ?root [] tree)"
      "set dirs \<inter> set skippedDirs = {}"
      by (auto simp: walk_init_def)
    with Some p show ?thesis by auto
  qed
qed

text \<open>
  The sample workspace has a file below \<open>vendor\<close>; the walk parses the three files outside
  it, and the finding for \<open>a/x.go\<close> has only unskipped directories above it.
\<close>

theorem findings_outside_skipped_witness:
  "(''/ws/vendor/b/y.go'', [''ws'', ''vendor'', ''b'']) \<in> set (tree_files ''/ws'' [] sample_tree) \<and>
   map path (files (snd (WalkDir None ''/ws'' (sample_fs ''/ws'') walk_init))) =
     [''/ws/a/x.go'', ''/ws/b/y.go'', ''/ws/c/z.go''] \<and>
   (\<exists>findings. handleScan None sample_fs (sample_req ''/ws'') = Inr findings \<and>
               x_finding \<in> set findings) \<and>
   (\<exists>tree dirs. sample_fs ''/ws'' = Some tree \<and>
                (''/ws/a/x.go'', dirs) \<in> set (tree_files ''/ws'' [] tree) \<and>
                set dirs \<inter> set skippedDirs = {})"
proof -
  let ?st = "snd (WalkDir None ''/ws'' (sample_fs ''/ws'') walk_init)"
  have v: "(''/ws/vendor/b/y.go'', [''ws'', ''vendor'', ''b'']) \<in> set (tree_files ''/ws'' [] sample_tree)"
    by code_simp
  have p: "map path (files ?st) = [''/ws/a/x.go'', ''/ws/b/y.go'', ''/ws/c/z.go'']"
    by code_simp
  have hs: "handleScan None sample_fs (sample_req ''/ws'') = Inr (analyze ''/ws'' ?st)"
    using handleScan_uncancelled [of "sample_req ''/ws''" sample_fs] by simp
  have "list_ex (\<lambda>fi. x_finding \<in> set (checkCircularDeps [] fi (importGraph ?st) ''/ws''))
          (files ?st)"
    by code_simp
  then obtain fi where "fi \<in> set (files ?st)"
    "x_finding \<in> set (checkCircularDeps [] fi (importGraph ?st) ''/ws'')"
    by (auto simp: list_ex_iff)
  then have mem: "x_finding \<in> set (analyze ''/ws'' ?st)"
    unfolding analyze_def by (rule analyze_contains)
  from findings_outside_skipped [OF hs mem]
  have "\<exists>tree dirs. sample_fs ''/ws'' = Some tree \<and>
                (''/ws/a/x.go'', dirs) \<in> set (tree_files ''/ws'' [] tree) \<and>
                set dirs \<inter> set skippedDirs = {}"
    by (simp add: x_finding_def)
  with v p hs mem show ?thesis
    by blast
qed

text \<open>
  A root below a directory named \<open>vendor\<close> is scanned all the same: the callback sees only
  the name \<open>app\<close> of the root, and the finding for \<open>a/x.go\<close> has a path that runs through
  \<open>vendor\<close>.
\<close>

theorem finding_beneath_vendor_of_root_path:
  "(\<exists>findings. handleScan None srv_fs (sample_req ''/srv/vendor/app'') = Inr findings \<and>
               app_finding \<in> set findings) \<and>
   filePath app_finding = ''/srv/vendor/app/a/x.go'' \<and>
   path_dirs (filePath app_finding) = ['''', ''srv'', ''vendor'', ''app'', ''a''] \<and>
   ''vendor'' \<in> set skippedDirs \<and>
   beneath_skipped (filePath app_finding)"
proof -
  let ?root = "''/srv/vendor/app''"
  let ?st = "snd (WalkDir None ?root (srv_fs ?root) walk_init)"
  have hs: "handleScan None srv_fs (sample_req ?root) = Inr (analyze ?root ?st)"
    using handleScan_uncancelled [of "sample_req ?root" srv_fs] by simp
  have "list_ex (\<lambda>fi. app_finding \<in> set (checkCircularDeps [] fi (importGraph ?st) ?root))
          (files ?st)"
    by code_simp
  then obtain fi where "fi \<in> set (files ?st)"
    "app_finding \<in> set (checkCircularDeps [] fi (importGraph ?st) ?root)"
    by (auto simp: list_ex_iff)
  then have mem: "app_finding \<in> set (analyze ?root ?st)"
    unfolding analyze_def by (rule analyze_contains)
  have p: "filePath app_finding = ''/srv/vendor/app/a/x.go''"
    by (simp add: app_finding_def)
  have d: "path_dirs ''/srv/vendor/app/a/x.go'' = ['''', ''srv'', ''vendor'', ''app'', ''a'']"
    by code_simp
  have v: "''vendor'' \<in> set skippedDirs"
    by (simp add: skippedDirs_def)
  have b: "beneath_skipped ''/srv/vendor/app/a/x.go''"
    by code_simp
  from hs mem p d v b show ?thesis
    by simp
qed


section \<open>A root that is missing or not a directory\<close>

text \<open>The scan fails only when the deadline of the context has passed.\<close>

lemma handleScan_Inl:
  "handleScan c fs req = Inl e \<Longrightarrow> e = WalkingWorkspace (CtxErr DeadlineExceeded)"
proof -
  assume a: "handleScan c fs req = Inl e"
  let ?root = "request_root req"
  let ?w = "WalkDir c ?root (fs ?root) walk_init"
  have r: "fst ?w = None \<or> (\<exists>k e. c = Some (k, e) \<and> fst ?w = Some (CtxErr e))"
  proof (cases "fs ?root")
    case None
    then show ?thesis by (simp add: WalkDir_def)
  next
    case (Some d)
    from walk_result(1) [of c ?root ?root d walk_init] show ?thesis
      by (cases "walkDir c ?root ?root d walk_init") (auto simp: WalkDir_def Some)
  qed
  obtain err st where w: "?w = (err, st)" by (cases ?w)
  show ?thesis
  proof (cases err)
    case None
    with a w show ?thesis by (simp add: handleScan_def Let_def split: if_splits)
  next
    case (Some x)
    with r w obtain ce where x: "x = CtxErr ce" by auto
    with a w Some show ?thesis
      by (cases ce) (simp_all add: handleScan_def Let_def split: if_splits)
  qed
qed

text \<open>
  Claim C6, amended.  When the root is not empty and cannot be examined, the callback
  swallows the error and the scan returns the empty successful result, whatever the context.
  When the root is a file, it is visited as the only entry and the scan succeeds unless the
  deadline of the context has passed; the result is empty when the file has no source
  extension or cannot be parsed.  The scan never fails but with the error of a context whose
  deadline has passed.
\<close>

theorem handleScan_root_missing_or_file:
  assumes "request_root req \<noteq> []"
  shows "(fs (request_root req) = None \<longrightarrow> handleScan c fs req = Inr []) \<and>
         (\<forall>n rd. fs (request_root req) = Some (FileNode n rd) \<and>
                  ctx_Err c 0 \<noteq> Some DeadlineExceeded \<longrightarrow>
                  (\<exists>findings. handleScan c fs req = Inr findings)) \<and>
         (\<forall>n rd. fs (request_root req) = Some (FileNode n rd) \<and>
                  ctx_Err c 0 \<noteq> Some DeadlineExceeded \<and>
                  (filepath_Ext (request_root req) \<notin> set sourceExtensions \<or>
                   snd (parseFile (request_root req) (filepath_Ext (request_root req)) rd)) \<longrightarrow>
                  handleScan c fs req = Inr []) \<and>
         (\<forall>e. handleScan c fs req = Inl e \<longrightarrow> e = WalkingWorkspace (CtxErr DeadlineExceeded))"
proof (intro conjI allI impI)
  assume "fs (request_root req) = None"
  with assms show "handleScan c fs req = Inr []"
    by (simp add: handleScan_def WalkDir_def analyze_def walk_init_def)
next
  fix n rd
  let ?root = "request_root req"
  assume a: "fs ?root = Some (FileNode n rd) \<and> ctx_Err c 0 \<noteq> Some DeadlineExceeded"
  show "\<exists>findings. handleScan c fs req = Inr findings"
  proof (cases "handleScan c fs req")
    case (Inr findings)
    then show ?thesis by simp
  next
    case (Inl e)
    then have e: "e = WalkingWorkspace (CtxErr DeadlineExceeded)" by (rule handleScan_Inl)
    have "fst (walkDir c ?root ?root (FileNode n rd) walk_init) \<noteq> Some (CtxErr DeadlineExceeded)"
      using a by (simp add: scan_callback_ctx walk_init_def)
    with Inl e a assms show ?thesis
      by (cases "walkDir c ?root ?root (FileNode n rd) walk_init")
         (auto simp: handleScan_def WalkDir_def split: if_splits option.splits walk_error.splits)
  qed
next
  fix n rd
  let ?root = "request_root req"
  assume a: "fs ?root = Some (FileNode n rd) \<and> ctx_Err c 0 \<noteq> Some DeadlineExceeded \<and>
             (filepath_Ext ?root \<notin> set sourceExtensions \<or>
              snd (parseFile ?root (filepath_Ext ?root) rd))"
  have f: "files (snd (scan_callback c ?root ?root (Entry (FileNode n rd)) walk_init)) = []"
    using a
    by (auto simp: scan_callback_def walk_init_def Let_def
        split: option.splits prod.splits bool.splits)
  have r: "fst (scan_callback c ?root ?root (Entry (FileNode n rd)) walk_init) \<noteq>
           Some (CtxErr DeadlineExceeded)"
    using a by (simp add: scan_callback_ctx walk_init_def)
  obtain err st where w: "scan_callback c ?root ?root (Entry (FileNode n rd)) walk_init = (err, st)"
    by (cases "scan_callback c ?root ?root (Entry (FileNode n rd)) walk_init")
  from f r w have "files st = []" "err \<noteq> Some (CtxErr DeadlineExceeded)" by simp_all
  then show "handleScan c fs req = Inr []"
    using assms a w
    by (cases err; cases "the err"; cases "case the err of CtxErr x \<Rightarrow> x | SkipDir \<Rightarrow> Canceled")
       (auto simp: handleScan_def WalkDir_def analyze_def)
next
  fix e
  assume "handleScan c fs req = Inl e"
  then show "e = WalkingWorkspace (CtxErr DeadlineExceeded)" by (rule handleScan_Inl)
qed

text \<open>
  A missing root with an expired context, and a root that is a text file: scanned with a
  context that is never done, after a cancellation, and after the deadline.
\<close>

theorem handleScan_root_missing_or_file_witness:
  "handleScan (Some (0, DeadlineExceeded)) sample_fs (sample_req ''/no/such/dir'') = Inr [] \<and>
   (\<exists>findings. handleScan None sample_fs (sample_req ''/ws/notes.txt'') = Inr findings) \<and>
   handleScan (Some (0, Canceled)) sample_fs (sample_req ''/ws/notes.txt'') = Inr [] \<and>
   handleScan (Some (0, DeadlineExceeded)) sample_fs (sample_req ''/ws/notes.txt'') =
     Inl (WalkingWorkspace (CtxErr DeadlineExceeded))"
proof -
  have e: "filepath_Ext ''/ws/notes.txt'' \<notin> set sourceExtensions"
    by code_simp
  have "isl (handleScan (Some (0, DeadlineExceeded)) sample_fs (sample_req ''/ws/notes.txt''))"
    by code_simp
  then obtain err where
    "handleScan (Some (0, DeadlineExceeded)) sample_fs (sample_req ''/ws/notes.txt'') = Inl err"
    by (auto simp: isl_def)
  with handleScan_root_missing_or_file
      [of "sample_req ''/ws/notes.txt''" sample_fs "Some (0, DeadlineExceeded)"]
  have 4: "handleScan (Some (0, DeadlineExceeded)) sample_fs (sample_req ''/ws/notes.txt'') =
     Inl (WalkingWorkspace (CtxErr DeadlineExceeded))"
    by simp
  from handleScan_root_missing_or_file
      [of "sample_req ''/ws/notes.txt''" sample_fs "Some (0, Canceled)"] e
  have 3: "handleScan (Some (0, Canceled)) sample_fs (sample_req ''/ws/notes.txt'') = Inr []"
    by (simp add: sample_fs_def ctx_Err_def)
  from handleScan_root_missing_or_file
      [of "sample_req ''/no/such/dir''" sample_fs "Some (0, DeadlineExceeded)"]
    handleScan_root_missing_or_file [of "sample_req ''/ws/notes.txt''" sample_fs None]
  have "handleScan (Some (0, DeadlineExceeded)) sample_fs (sample_req ''/no/such/dir'') = Inr [] \<and>
   (\<exists>findings. handleScan None sample_fs (sample_req ''/ws/notes.txt'') = Inr findings)"
    by (simp add: sample_fs_def ctx_Err_def)
  with 3 4 show ?thesis by simp
qed

text \<open>
  The scan of a root that does not exist, and of a root that is a file, is the empty
  successful result and not a failure.
\<close>

theorem handleScan_missing_root_succeeds:
  "handleScan None sample_fs (sample_req ''/no/such/dir'') = Inr [] \<and>
   handleScan None sample_fs (sample_req ''/ws/notes.txt'') = Inr []"
  by code_simp

section \<open>Cancellation\<close>










end
